theory Spec2Isabelle
  imports Complex_Main "HOL-Library.Multiset" "HOL-Library.Monad_Syntax"
begin

section \<open>Python values and string formatting\<close>

text \<open>
  Text is modelled as the UTF-8 bytes that end up in the report file, so a letter outside
  ASCII is two characters. Python integers are \<open>int\<close>; a Python float is modelled by the
  rational number it denotes.
\<close>

definition nl :: string where
  "nl = [CHR 0x0A]"

definition digit :: "nat \<Rightarrow> char" where
  "digit n = ''0123456789'' ! n"

text \<open>\<open>str(n)\<close> for a non-negative integer: its decimal digits.\<close>

fun str_nat :: "nat \<Rightarrow> string" where
  "str_nat n = (if n < 10 then [digit n] else str_nat (n div 10) @ [digit (n mod 10)])"

declare str_nat.simps [simp del]

text \<open>
  The format specification \<open>:02d\<close>: at least two characters, zero-padded; the sign of a
  negative number counts for the width.
\<close>

definition fmt_02d :: "int \<Rightarrow> string" where
  "fmt_02d i =
     (if i < 0 then ''-'' @ str_nat (nat (- i))
      else let s = str_nat (nat i) in replicate (2 - length s) (CHR ''0'') @ s)"

text \<open>\<open>int(x)\<close> on a float: truncation towards zero.\<close>

definition py_int :: "rat \<Rightarrow> int" where
  "py_int q = (if 0 \<le> q then \<lfloor>q\<rfloor> else \<lceil>q\<rceil>)"

text \<open>
  The format specification \<open>:.2f\<close>: the value rounded to two decimals, ties to even, the
  sign kept when the value is negative.
\<close>

definition round_half_even :: "rat \<Rightarrow> int" where
  "round_half_even q =
     (let f = \<lfloor>q\<rfloor>; r = q - of_int f
      in if r < 1 / 2 then f else if 1 / 2 < r then f + 1 else if even f then f else f + 1)"

definition fmt_2f :: "rat \<Rightarrow> string" where
  "fmt_2f q =
     (let n = round_half_even (\<bar>q\<bar> * 100)
      in (if q < 0 then ''-'' else '''') @ str_nat (nat (n div 100)) @ ''.'' @
         [digit (nat (n mod 100) div 10), digit (nat (n mod 100) mod 10)])"

section \<open>The transcription payload\<close>

text \<open>
  The provider's JSON objects, as far as the source reads them. The values of \<open>text\<close> and
  \<open>language_code\<close> and the \<open>text\<close> of an utterance are only printed; they are \<open>None\<close>
  when the key is absent and \<open>Some s\<close> when it holds the string \<open>s\<close>. The other keys are used
  as numbers, as members of a set or as a list, which some JSON values do not allow. Such
  a key is

  \<^item> \<open>Absent\<close>: not in the object;
  \<^item> \<open>Null\<close>: there with the value \<open>null\<close>, Python's \<open>None\<close>;
  \<^item> \<open>Present v\<close>: there with a value of the expected type: a whole number for \<open>start\<close>
    and \<open>end\<close>, a number for \<open>confidence\<close>, a string for \<open>speaker\<close>, an array of objects
    for \<open>utterances\<close>;
  \<^item> \<open>Ill_typed\<close>: there with a value of another type on which the source's use of the key
    raises: a string, an array or an object for \<open>start\<close>, \<open>end\<close> and \<open>confidence\<close>; an
    array or an object, which cannot be hashed, for \<open>speaker\<close>; a number other than zero,
    \<open>true\<close>, a string or an object that is not empty, or an array that holds something
    that is not an object, for \<open>utterances\<close>.

  A computation of the source that can raise returns an \<open>option\<close> in the model, \<open>None\<close>
  when it raises.
\<close>

datatype 'a field = Absent | Null | Present 'a | Ill_typed

record utterance =
  u_speaker :: "string field"
  u_start :: "int field"
  u_end :: "int field"
  u_text :: "string option"

record transcript_data =
  t_text :: "string option"
  t_language_code :: "string option"
  t_confidence :: "rat field"
  t_utterances :: "utterance list field"

text \<open>\<open>d.get(key, default)\<close> for a key that is only printed.\<close>

definition get_or :: "'a option \<Rightarrow> 'a \<Rightarrow> 'a" where
  "get_or v d = (case v of None \<Rightarrow> d | Some x \<Rightarrow> x)"

text \<open>
  \<open>d.get(key, default)\<close> for a key whose value is then used in arithmetic, formatted as
  a number or iterated: \<open>None\<close> and a value of another type raise there.
\<close>

definition typed :: "'a field \<Rightarrow> 'a \<Rightarrow> 'a option" where
  "typed f d = (case f of Absent \<Rightarrow> Some d | Null \<Rightarrow> None | Present v \<Rightarrow> Some v | Ill_typed \<Rightarrow> None)"

text \<open>
  The same value as a sort key. A start that is not a number makes the comparison raise,
  or at the latest the formatting of that utterance in the loop below; the model leaves
  it to the loop and lets such a start sort as the default.
\<close>

definition or_default :: "'a field \<Rightarrow> 'a \<Rightarrow> 'a" where
  "or_default f d = (case f of Present v \<Rightarrow> v | _ \<Rightarrow> d)"

text \<open>
  The truth value of \<open>d.get(key, [])\<close> in \<open>if utterances\<close>: an empty list and \<open>None\<close> are
  false.
\<close>

definition truthy :: "'a list field \<Rightarrow> bool" where
  "truthy f = (case f of Absent \<Rightarrow> False | Null \<Rightarrow> False | Present xs \<Rightarrow> xs \<noteq> [] | Ill_typed \<Rightarrow> True)"

text \<open>
  The members of the set of speakers: a string, or Python's \<open>None\<close> for a speaker that is
  \<open>null\<close>; \<open>label_str\<close> is what an f-string prints for one.
\<close>

datatype label = Label string | No_label

definition label_str :: "label \<Rightarrow> string" where
  "label_str l = (case l of Label s \<Rightarrow> s | No_label \<Rightarrow> ''None'')"

text \<open>\<open>u.get('speaker', 'A')\<close> as a member of a set.\<close>

definition speaker_label :: "utterance \<Rightarrow> label option" where
  "speaker_label u =
     (case u_speaker u of Absent \<Rightarrow> Some (Label ''A'') | Null \<Rightarrow> Some No_label
      | Present s \<Rightarrow> Some (Label s) | Ill_typed \<Rightarrow> None)"

section \<open>The report text built by \<open>save_transcript\<close>\<close>

text \<open>
  The header line \<open>=== TRANSCRICAO ASSEMBLYAI ===\<close> and an empty line; the source writes
  the word with a C cedilla and an A tilde, two bytes each in UTF-8.
\<close>

definition report_header :: string where
  "report_header =
     ''=== TRANSCRI'' @ [CHR 0xC3, CHR 0x87, CHR 0xC3, CHR 0x83] @ ''O ASSEMBLYAI ==='' @ nl @ nl"

text \<open>The label \<open>Confianca: \<close>, written with a c cedilla (two bytes in UTF-8).\<close>

definition confidence_label :: string where
  "confidence_label = ''Confian'' @ [CHR 0xC3, CHR 0xA7] @ ''a: ''"

text \<open>
  \<open>len(set(u.get('speaker', 'A') for u in utterances))\<close>; it raises when a speaker cannot
  be hashed.
\<close>

definition count_speakers :: "utterance list \<Rightarrow> nat option" where
  "count_speakers utterances =
     map_option (\<lambda>labels. card (set labels)) (those (map speaker_label utterances))"

text \<open>
  The conversion of one offset: \<open>int(t // 3600)\<close>, \<open>int((t % 3600) // 60)\<close>,
  \<open>int(t % 60)\<close>, each printed with \<open>:02d\<close>. Python's \<open>//\<close> and \<open>%\<close> round towards
  minus infinity, as \<open>div\<close> and \<open>mod\<close> on \<open>int\<close> do.
\<close>

definition hms :: "int \<Rightarrow> string" where
  "hms t =
     (let hours = t div 3600; minutes = (t mod 3600) div 60; seconds = t mod 60
      in fmt_02d hours @ '':'' @ fmt_02d minutes @ '':'' @ fmt_02d seconds)"

text \<open>
  The body of the loop over the sorted utterances: the text one utterance adds. The
  arithmetic raises on a start or an end that is not a number. A speaker that cannot be
  hashed never gets here: the loop runs on a list that is not empty, for which the count
  of speakers has raised before.
\<close>

definition segment :: "utterance \<Rightarrow> string option" where
  "segment u =
     do {
       start \<leftarrow> typed (u_start u) 0;
       end \<leftarrow> typed (u_end u) 0;
       let start_time = hms start;
       let end_time = hms end;
       speaker \<leftarrow> speaker_label u;
       let text_segment = get_or (u_text u) '''';
       Some (''['' @ start_time @ '' - '' @ end_time @ ''] Speaker '' @ label_str speaker @ '': '' @
             text_segment @ nl @ nl)
     }"

text \<open>\<open>sorted(utterances, key=lambda x: x.get("start", 0))\<close>; Python's sort is stable.\<close>

definition utterances_sorted :: "utterance list \<Rightarrow> utterance list" where
  "utterances_sorted utterances = sort_key (\<lambda>x. or_default (u_start x) 0) utterances"

text \<open>
  The general-information lines, each present only under its guard. \<open>:.2f\<close> raises on a
  confidence that is not a number.
\<close>

definition language_line :: "transcript_data \<Rightarrow> string" where
  "language_line td =
     (case t_language_code td of None \<Rightarrow> ''''
      | Some lc \<Rightarrow> ''Idioma detectado: '' @ lc @ nl)"

definition confidence_line :: "transcript_data \<Rightarrow> string option" where
  "confidence_line td =
     (case t_confidence td of Absent \<Rightarrow> Some '''' | Null \<Rightarrow> None
      | Present c \<Rightarrow> Some (confidence_label @ fmt_2f c @ nl) | Ill_typed \<Rightarrow> None)"

definition speakers_line :: "utterance list field \<Rightarrow> string option" where
  "speakers_line utterances =
     (if truthy utterances then
        do {
          us \<leftarrow> typed utterances [];
          n \<leftarrow> count_speakers us;
          Some (''Total de falantes: '' @ str_nat n @ nl)
        }
      else Some '''')"

text \<open>The loop \<open>for utterance in utterances_sorted: content += ...\<close>\<close>

fun add_segments :: "string \<Rightarrow> utterance list \<Rightarrow> string option" where
  "add_segments content [] = Some content"
| "add_segments content (utterance # rest) =
     do { s \<leftarrow> segment utterance; add_segments (content @ s) rest }"

text \<open>
  The value of \<open>content\<close> when the file is opened, or \<open>None\<close> when a statement before
  has raised.
\<close>

definition report_content :: "transcript_data \<Rightarrow> string option" where
  "report_content td =
     do {
       let utterances = t_utterances td;
       let content = report_header;
       let content = content @ language_line td;
       confidence \<leftarrow> confidence_line td;
       let content = content @ confidence;
       speakers \<leftarrow> speakers_line utterances;
       let content = content @ speakers;
       let content = content @ nl @ ''=== SEGMENTOS COM FALANTES ==='' @ nl @ nl;
       us \<leftarrow> typed utterances [];
       add_segments content (utterances_sorted us)
     }"

section \<open>Paths, jobs and the state of a run\<close>

text \<open>
  A file path as \<open>pathlib.Path\<close> splits it: the directory, the final component without
  its suffix, and the suffix (with its dot, empty when there is none).
\<close>

record path =
  parent :: string
  stem :: string
  suffix :: string

definition path_str :: "path \<Rightarrow> string" where
  "path_str p = parent p @ ''/'' @ stem p @ suffix p"

definition with_suffix :: "path \<Rightarrow> string \<Rightarrow> path" where
  "with_suffix p s = p\<lparr>suffix := s\<rparr>"

definition lower_char :: "char \<Rightarrow> char" where
  "lower_char c =
     (let n = (of_char c :: nat) in if 65 \<le> n \<and> n \<le> 90 then char_of (n + 32) else c)"

definition lower :: "string \<Rightarrow> string" where
  "lower s = map lower_char s"

text \<open>\<open>input_path.suffix.lower() in ['.m4a', '.aac', '.ogg', '.opus']\<close>\<close>

definition needs_conversion :: "path \<Rightarrow> bool" where
  "needs_conversion input_path \<longleftrightarrow>
     lower (suffix input_path) \<in> set [''.m4a'', ''.aac'', ''.ogg'', ''.opus'']"

text \<open>The values of \<open>job['status']\<close>: \<open>'uploaded'\<close>, \<open>'processing'\<close>, \<open>'completed'\<close>, \<open>'error'\<close>.\<close>

datatype job_state = Uploaded | Processing | Completed | Error

text \<open>
  The values of \<open>result['error']\<close> that \<open>transcribe_audio\<close> returns: its four literals,
  and \<open>Excecao\<close> for \<open>str(e)\<close>, the text of an exception caught by its closing
  \<open>except Exception\<close>.
\<close>

datatype failure =
    Falha_na_conversao
  | Falha_no_upload
  | Falha_na_transcricao
  | Falha_ao_salvar_transcricao
  | Excecao

text \<open>The texts written to \<open>job['message']\<close>, one constructor per literal of the source.\<close>

datatype message =
    Arquivo_enviado_com_sucesso
  | Iniciando_transcricao
  | Convertendo_arquivo
  | Convertendo_arquivo_pct int
  | Enviando_arquivo
  | Upload_concluido
  | Processando_transcricao
  | Aguardando_na_fila
  | Finalizando
  | Transcricao_concluida
  | Salvando_resultado
  | Transcricao_concluida_com_sucesso
  | Erro failure

record job =
  j_status :: job_state
  j_filename :: string
  j_filepath :: path
  j_progress :: int
  j_message :: message
  j_created_at :: string
  j_result_file :: "string option"
  j_language_code :: "string option"
  j_completed_at :: "string option"

text \<open>The errors the service logs, and the calls a run makes on the outside world.\<close>

datatype error_log =
    Erro_na_conversao
  | Erro_no_upload
  | Erro_na_requisicao
  | Erro_no_polling
  | Erro_na_transcricao
  | Timeout
  | Erro_ao_salvar
  | Erro_no_processamento

datatype event =
    Ffmpeg string string
  | Upload string string
  | Submit string
  | Poll string
  | Sleep rat
  | Write_file string
  | Unlink string
  | Log_error error_log

text \<open>
  The state a run reads and changes: the dictionary \<open>jobs_status\<close> of the web
  application, the files on disk (path to content), and two histories kept for the
  statements below: every value assigned to \<open>job_status['progress']\<close>, and every outside
  call and logged error, oldest first.
\<close>

record world =
  jobs_status :: "string \<rightharpoonup> job"
  files :: "string \<rightharpoonup> string"
  progress_writes :: "int list"
  events :: "event list"

text \<open>
  What the outside world answers during one run: the encoding process, the provider's
  three endpoints, the clock and the file system's failures.
\<close>

datatype upload_outcome = Upload_raises | Upload_response int string

datatype submit_outcome = Submit_raises | Submit_response int string

datatype poll_outcome = Poll_raises | Poll_response int string transcript_data

record env =
  popen_raises :: bool
  running_at :: "rat list"
  returncode :: int
  ffmpeg_wrote :: "string option"
  upload_outcome :: upload_outcome
  submit_outcome :: submit_outcome
  poll_outcome :: "nat \<Rightarrow> poll_outcome"
  poll_elapsed :: "nat \<Rightarrow> rat"
  timestamp :: string
  write_raises :: bool
  unlink_raises :: bool
  finished_at :: string

definition emit :: "event \<Rightarrow> world \<Rightarrow> world" where
  "emit e w = w\<lparr>events := events w @ [e]\<rparr>"

text \<open>
  \<open>if job_status: job_status['progress'] = p; job_status['message'] = m\<close>. The job
  dictionary is shared with \<open>jobs_status\<close>; the reference is the job's key, \<open>None\<close> when the
  caller passed no \<open>job_status\<close>.
\<close>

definition set_progress :: "string option \<Rightarrow> int \<Rightarrow> message \<Rightarrow> world \<Rightarrow> world" where
  "set_progress job_status p m w =
     (case job_status of
        None \<Rightarrow> w
      | Some k \<Rightarrow>
          w\<lparr>jobs_status :=
               (jobs_status w)(k := map_option (\<lambda>j. j\<lparr>j_progress := p, j_message := m\<rparr>) (jobs_status w k)),
            progress_writes := progress_writes w @ [p]\<rparr>)"

section \<open>The transcription service\<close>

subsection \<open>\<open>convert_to_mp3\<close> and the loop that consumes it\<close>

text \<open>
  The body of \<open>for progress in self.convert_to_mp3(file_path)\<close> in \<open>transcribe_audio\<close>:
  \<open>10 + int(progress * 0.3)\<close>, with the product taken exactly (it agrees with the
  floating-point product on every progress value from 0 to 100).
\<close>

definition on_progress :: "string option \<Rightarrow> int \<Rightarrow> world \<Rightarrow> world" where
  "on_progress job_status progress w =
     (if job_status = None then w
      else emit (Sleep (1 / 10))
             (set_progress job_status (10 + py_int (of_int progress * (3 / 10)))
                (Convertendo_arquivo_pct progress) w))"

text \<open>
  \<open>while process.poll() is None\<close>: one turn per reading \<open>elapsed\<close> of the clock taken while
  the encoding process is still running; each turn yields to the loop body above.
\<close>

fun while_running :: "string option \<Rightarrow> rat list \<Rightarrow> world \<Rightarrow> world" where
  "while_running job_status [] w = w"
| "while_running job_status (elapsed # rest) w =
     (let progress = min (py_int (elapsed * 10)) 90;
          w = on_progress job_status progress w;
          w = emit (Sleep (1 / 10)) w
      in while_running job_status rest w)"

text \<open>
  The generator run together with its consumer. The first component is the value the
  generator returns, which a \<open>for\<close> loop drops. When the process has ended the output file
  holds whatever the encoder left there.
\<close>

definition convert_to_mp3 :: "env \<Rightarrow> path \<Rightarrow> string option \<Rightarrow> world \<Rightarrow> string option \<times> world" where
  "convert_to_mp3 env input_path job_status w =
     (let output_file = with_suffix input_path ''.mp3''
      in if popen_raises env then (None, emit (Log_error Erro_na_conversao) w)
         else
           let w = emit (Ffmpeg (path_str input_path) (path_str output_file)) w;
               w = while_running job_status (running_at env) w;
               w = (case ffmpeg_wrote env of
                      None \<Rightarrow> w
                    | Some data \<Rightarrow> w\<lparr>files := (files w)(path_str output_file \<mapsto> data)\<rparr>)
           in if returncode env = 0
              then (Some (path_str output_file), on_progress job_status 100 w)
              else (None, emit (Log_error Erro_na_conversao) w))"

subsection \<open>\<open>upload_file\<close>\<close>

definition upload_file :: "env \<Rightarrow> string \<Rightarrow> string option \<Rightarrow> world \<Rightarrow> string option \<times> world" where
  "upload_file env file_path job_status w =
     (case files w file_path of
        None \<Rightarrow> (None, emit (Log_error Erro_no_upload) w)
      | Some data \<Rightarrow>
          let w = emit (Upload file_path data) w
          in (case upload_outcome env of
                Upload_raises \<Rightarrow> (None, emit (Log_error Erro_no_upload) w)
              | Upload_response status_code upload_url \<Rightarrow>
                  if status_code = 200
                  then (Some upload_url, set_progress job_status 50 Upload_concluido w)
                  else (None, emit (Log_error Erro_no_upload) w)))"

subsection \<open>\<open>transcribe_audio_api\<close>\<close>

definition max_attempts :: nat where
  "max_attempts = 60"

text \<open>The progress and message synthesised from the remote status and the elapsed time.\<close>

definition synth_progress :: "string \<Rightarrow> rat \<Rightarrow> int" where
  "synth_progress status elapsed_time =
     (let base_progress = 55
      in if status = ''queued'' then base_progress + min (py_int (elapsed_time * 2)) 10
         else if status = ''processing'' then base_progress + 10 + min (py_int (elapsed_time * 3)) 25
         else base_progress + 35)"

definition synth_message :: "string \<Rightarrow> message" where
  "synth_message status =
     (if status = ''queued'' then Aguardando_na_fila
      else if status = ''processing'' then Processando_transcricao
      else Finalizando)"

text \<open>\<open>while attempts < max_attempts\<close>\<close>

function poll_loop :: "env \<Rightarrow> string \<Rightarrow> string option \<Rightarrow> nat \<Rightarrow> world \<Rightarrow> transcript_data option \<times> world" where
  "poll_loop env transcript_id job_status attempts w =
     (if attempts < max_attempts then
        (let w = emit (Poll transcript_id) w
         in case poll_outcome env attempts of
              Poll_raises \<Rightarrow> (None, emit (Log_error Erro_na_transcricao) w)
            | Poll_response status_code status polling_response \<Rightarrow>
                if status_code \<noteq> 200 then (None, emit (Log_error Erro_no_polling) w)
                else
                  let elapsed_time = poll_elapsed env attempts;
                      progress = synth_progress status elapsed_time;
                      w = set_progress job_status (min progress 90) (synth_message status) w
                  in if status = ''completed''
                     then (Some polling_response, set_progress job_status 95 Transcricao_concluida w)
                     else if status = ''error''
                     then (None, emit (Log_error Erro_na_transcricao) w)
                     else poll_loop env transcript_id job_status (attempts + 1) (emit (Sleep 5) w))
      else (None, emit (Log_error Timeout) w))"
  by pat_completeness auto
termination
  by (relation "measure (\<lambda>(env, transcript_id, job_status, attempts, w). max_attempts - attempts)")
    auto

declare poll_loop.simps [simp del]

definition transcribe_audio_api :: "env \<Rightarrow> string \<Rightarrow> string option \<Rightarrow> world \<Rightarrow> transcript_data option \<times> world" where
  "transcribe_audio_api env upload_url job_status w =
     (let w = set_progress job_status 55 Iniciando_transcricao w;
          w = emit (Submit upload_url) w
      in case submit_outcome env of
           Submit_raises \<Rightarrow> (None, emit (Log_error Erro_na_transcricao) w)
         | Submit_response status_code transcript_id \<Rightarrow>
             if status_code \<noteq> 200 then (None, emit (Log_error Erro_na_requisicao) w)
             else poll_loop env transcript_id job_status 0 w)"

subsection \<open>\<open>save_transcript\<close>\<close>

definition output_dir :: string where
  "output_dir = ''results''"

text \<open>
  The whole body is inside \<open>try: ... except Exception\<close>: when the formatting or the
  writing raises, the error is logged, no file is written and \<open>None\<close> is returned.
\<close>

definition save_transcript :: "env \<Rightarrow> transcript_data \<Rightarrow> path \<Rightarrow> world \<Rightarrow> string option \<times> world" where
  "save_transcript env transcript_data original_filename w =
     (let output_filename = timestamp env @ ''_'' @ stem original_filename @ ''_transcript.txt'';
          output_path = output_dir @ ''/'' @ output_filename
      in case report_content transcript_data of
           None \<Rightarrow> (None, emit (Log_error Erro_ao_salvar) w)
         | Some content \<Rightarrow>
             if write_raises env then (None, emit (Log_error Erro_ao_salvar) w)
             else (Some output_path,
                   emit (Write_file output_path) (w\<lparr>files := (files w)(output_path \<mapsto> content)\<rparr>)))"

subsection \<open>\<open>transcribe_audio\<close>\<close>

datatype result =
    Failure failure
  | Success (transcript_file: string) (detected_language: "string option") (speakers_count: nat)

text \<open>\<open>converted_file.unlink()\<close> inside \<open>try: ... except: pass\<close>\<close>

definition unlink :: "env \<Rightarrow> string \<Rightarrow> world \<Rightarrow> world" where
  "unlink env p w =
     (if unlink_raises env then w else emit (Unlink p) (w\<lparr>files := (files w)(p := None)\<rparr>))"

text \<open>\<open>len(set(...)) if utterances else 0\<close>, from the payload of the completed poll.\<close>

definition result_speakers_count :: "transcript_data \<Rightarrow> nat option" where
  "result_speakers_count transcript_data =
     (let utterances = t_utterances transcript_data
      in if truthy utterances then
           do { us \<leftarrow> typed utterances []; count_speakers us }
         else Some 0)"

text \<open>
  The steps of \<open>transcribe_audio\<close> from the upload on, for the file \<open>process_file\<close> chosen
  by the normalization branch: upload, transcription, report, cleanup. An exception in
  the count of speakers is caught by the \<open>except Exception\<close> that closes
  \<open>transcribe_audio\<close>.
\<close>

definition after_conversion :: "env \<Rightarrow> path \<Rightarrow> string \<Rightarrow> string option \<Rightarrow> world \<Rightarrow> result \<times> world" where
  "after_conversion env input_path process_file job_status w =
     (let w = set_progress job_status 40 Enviando_arquivo w;
          (upload_url, w) = upload_file env process_file job_status w
      in case upload_url of
           None \<Rightarrow> (Failure Falha_no_upload, w)
         | Some url \<Rightarrow>
             if url = [] then (Failure Falha_no_upload, w)
             else
               let w = set_progress job_status 50 Processando_transcricao w;
                   (transcript_data, w) = transcribe_audio_api env url job_status w
               in (case transcript_data of
                     None \<Rightarrow> (Failure Falha_na_transcricao, w)
                   | Some td \<Rightarrow>
                       let w = set_progress job_status 95 Salvando_resultado w;
                           (result_file, w) = save_transcript env td (input_path\<lparr>parent := []\<rparr>) w
                       in (case result_file of
                             None \<Rightarrow> (Failure Falha_ao_salvar_transcricao, w)
                           | Some rf \<Rightarrow>
                               let w = (if needs_conversion input_path
                                        then unlink env (path_str (with_suffix input_path ''.mp3'')) w
                                        else w)
                               in (case result_speakers_count td of
                                     None \<Rightarrow> (Failure Excecao, emit (Log_error Erro_no_processamento) w)
                                   | Some n \<Rightarrow>
                                       let w = set_progress job_status 100
                                                 Transcricao_concluida_com_sucesso w
                                       in (Success rf (t_language_code td) n, w)))))"

definition transcribe_audio :: "env \<Rightarrow> path \<Rightarrow> string option \<Rightarrow> world \<Rightarrow> result \<times> world" where
  "transcribe_audio env input_path job_status w =
     (if needs_conversion input_path then
        let (returned, w) = convert_to_mp3 env input_path job_status w;
            converted_file = with_suffix input_path ''.mp3''
        in if files w (path_str converted_file) = None then (Failure Falha_na_conversao, w)
           else after_conversion env input_path (path_str converted_file) job_status w
      else after_conversion env input_path (path_str input_path) job_status w)"

section \<open>The web application\<close>

text \<open>The three answers of \<open>start_transcription\<close>: 404, 400 and the success body.\<close>

datatype response = Job_nao_encontrado | Job_ja_processado | Transcricao_iniciada

text \<open>
  \<open>start_transcription\<close>. With the answer \<open>Transcricao_iniciada\<close> the background thread
  running \<open>process_transcription\<close> has been started; with the others it has not.
\<close>

definition start_transcription :: "string \<Rightarrow> world \<Rightarrow> response \<times> world" where
  "start_transcription job_id w =
     (case jobs_status w job_id of
        None \<Rightarrow> (Job_nao_encontrado, w)
      | Some job \<Rightarrow>
          if j_status job \<noteq> Uploaded then (Job_ja_processado, w)
          else
            let w = w\<lparr>jobs_status := (jobs_status w)(job_id \<mapsto> job\<lparr>j_status := Processing\<rparr>)\<rparr>;
                w = set_progress (Some job_id) 0 Iniciando_transcricao w
            in (Transcricao_iniciada, w))"

definition update_job :: "string \<Rightarrow> (job \<Rightarrow> job) \<Rightarrow> world \<Rightarrow> world" where
  "update_job job_id f w =
     w\<lparr>jobs_status := (jobs_status w)(job_id := map_option f (jobs_status w job_id))\<rparr>"

definition process_transcription :: "env \<Rightarrow> string \<Rightarrow> world \<Rightarrow> world" where
  "process_transcription env job_id w =
     (case jobs_status w job_id of
        None \<Rightarrow> w
      | Some job \<Rightarrow>
          let w = set_progress (Some job_id) 10 Convertendo_arquivo w;
              (result, w) = transcribe_audio env (j_filepath job) (Some job_id) w
          in (case result of
                Success rf lc n \<Rightarrow>
                  update_job job_id
                    (\<lambda>j. j\<lparr>j_result_file := Some rf, j_language_code := lc,
                            j_completed_at := Some (finished_at env)\<rparr>)
                    (set_progress (Some job_id) 100 Transcricao_concluida
                       (update_job job_id (\<lambda>j. j\<lparr>j_status := Completed\<rparr>) w))
              | Failure e \<Rightarrow>
                  update_job job_id (\<lambda>j. j\<lparr>j_status := Error, j_message := Erro e\<rparr>) w))"

text \<open>One run: the start request and, when it is accepted, the thread it starts.\<close>

definition run :: "env \<Rightarrow> string \<Rightarrow> world \<Rightarrow> response \<times> world" where
  "run env job_id w =
     (case start_transcription job_id w of
        (Transcricao_iniciada, w') \<Rightarrow> (Transcricao_iniciada, process_transcription env job_id w')
      | (r, w') \<Rightarrow> (r, w'))"

section \<open>Concrete payloads, jobs and runs\<close>

text \<open>Utterances whose offsets are the provider's milliseconds, and the same in seconds.\<close>

definition utt_ms :: utterance where
  "utt_ms = \<lparr>u_speaker = Present ''A'', u_start = Present 3723000, u_end = Present 3725000,
             u_text = Some ''ola''\<rparr>"

definition utt_sec :: utterance where
  "utt_sec = \<lparr>u_speaker = Present ''A'', u_start = Present 3723, u_end = Present 3725,
              u_text = Some ''ola''\<rparr>"

definition utt_at :: "string \<Rightarrow> int \<Rightarrow> utterance" where
  "utt_at speaker start =
     \<lparr>u_speaker = Present speaker, u_start = Present start, u_end = Present (start + 900),
      u_text = Some ''ok''\<rparr>"

text \<open>
  An utterance with no field at all, one whose end lies before its start, and one whose
  start is \<open>null\<close>.
\<close>

definition utt_bare :: utterance where
  "utt_bare = \<lparr>u_speaker = Absent, u_start = Absent, u_end = Absent, u_text = None\<rparr>"

definition utt_backwards :: utterance where
  "utt_backwards = \<lparr>u_speaker = Present ''B'', u_start = Present 10, u_end = Present 5,
                    u_text = Some ''x''\<rparr>"

definition utt_null_start :: utterance where
  "utt_null_start = \<lparr>u_speaker = Present ''A'', u_start = Null, u_end = Present 5,
                     u_text = Some ''x''\<rparr>"

definition payload_two_speakers :: transcript_data where
  "payload_two_speakers =
     \<lparr>t_text = Some ''ok ok'', t_language_code = Some ''pt'', t_confidence = Present (93 / 100),
      t_utterances = Present [utt_at ''B'' 5000, utt_at ''A'' 1000, utt_bare, utt_backwards]\<rparr>"

definition payload_no_utterances :: transcript_data where
  "payload_no_utterances =
     \<lparr>t_text = Some [], t_language_code = None, t_confidence = Absent, t_utterances = Present []\<rparr>"

definition payload_ms :: transcript_data where
  "payload_ms =
     \<lparr>t_text = Some ''ola'', t_language_code = None, t_confidence = Absent,
      t_utterances = Present [utt_ms]\<rparr>"

definition payload_null_start :: transcript_data where
  "payload_null_start =
     \<lparr>t_text = Some ''x'', t_language_code = None, t_confidence = Absent,
      t_utterances = Present [utt_null_start]\<rparr>"

text \<open>An uploaded \<open>.ogg\<close> file, its job, and the same job once completed.\<close>

definition ogg_path :: path where
  "ogg_path = \<lparr>parent = ''uploads'', stem = ''a'', suffix = ''.ogg''\<rparr>"

definition job_uploaded :: job where
  "job_uploaded =
     \<lparr>j_status = Uploaded, j_filename = ''a.ogg'', j_filepath = ogg_path, j_progress = 0,
      j_message = Arquivo_enviado_com_sucesso, j_created_at = ''2025-09-03T21:56:13'',
      j_result_file = None, j_language_code = None, j_completed_at = None\<rparr>"

definition job_completed :: job where
  "job_completed =
     job_uploaded\<lparr>j_status := Completed, j_progress := 100, j_message := Transcricao_concluida,
       j_result_file := Some ''results/r.txt''\<rparr>"

definition world0 :: world where
  "world0 =
     \<lparr>jobs_status = [''job1'' \<mapsto> job_uploaded], files = [''uploads/a.ogg'' \<mapsto> ''ogg-audio''],
      progress_writes = [], events = []\<rparr>"

definition world_completed :: world where
  "world_completed = world0\<lparr>jobs_status := [''job1'' \<mapsto> job_completed]\<rparr>"

text \<open>
  A run in which everything works: the encoder exits with 0 after three clock readings,
  the provider reports \<open>queued\<close>, then \<open>processing\<close>, then \<open>completed\<close>.
\<close>

definition env_ok :: env where
  "env_ok =
     \<lparr>popen_raises = False, running_at = [0, 1 / 2, 12], returncode = 0,
      ffmpeg_wrote = Some ''mp3-audio'',
      upload_outcome = Upload_response 200 ''https://cdn/u1'',
      submit_outcome = Submit_response 200 ''t1'',
      poll_outcome = (\<lambda>i. if i = 0 then Poll_response 200 ''queued'' payload_two_speakers
                          else if i = 1 then Poll_response 200 ''processing'' payload_two_speakers
                          else Poll_response 200 ''completed'' payload_two_speakers),
      poll_elapsed = (\<lambda>i. 5 * of_nat i),
      timestamp = ''20250903_215613'', write_raises = False, unlink_raises = False,
      finished_at = ''2025-09-03T21:57:00''\<rparr>"

text \<open>The same run, except that the upload is answered with HTTP 500.\<close>

definition env_upload_fails :: env where
  "env_upload_fails = env_ok\<lparr>upload_outcome := Upload_response 500 []\<rparr>"

text \<open>The same run, except that the encoder exits with 1 and leaves a partial file.\<close>

definition env_encoder_fails :: env where
  "env_encoder_fails = env_ok\<lparr>returncode := 1, ffmpeg_wrote := Some ''partial''\<rparr>"

text \<open>A run in which the provider reports \<open>processing\<close> and then \<open>queued\<close> again.\<close>

definition env_status_goes_back :: env where
  "env_status_goes_back =
     env_ok\<lparr>poll_outcome :=
               (\<lambda>i. if i = 0 then Poll_response 200 ''processing'' payload_two_speakers
                    else if i = 1 then Poll_response 200 ''queued'' payload_two_speakers
                    else Poll_response 200 ''completed'' payload_two_speakers),
            poll_elapsed := (\<lambda>i. 10 + 5 * of_nat i)\<rparr>"

text \<open>A run in which every poll is answered with \<open>processing\<close>.\<close>

definition env_never_done :: env where
  "env_never_done =
     env_ok\<lparr>poll_outcome := (\<lambda>i. Poll_response 200 ''processing'' payload_two_speakers)\<rparr>"

text \<open>The same payload saved at another time under another name.\<close>

definition env_later :: env where
  "env_later = env_ok\<lparr>timestamp := ''20260101_000000''\<rparr>"

section \<open>Conditions on the outside world, and the history of progress values\<close>

text \<open>
  The stage of a remote status in the order the loop's bands assume: \<open>queued\<close>, then
  \<open>processing\<close>, then anything else.
\<close>

definition status_band :: "string \<Rightarrow> nat" where
  "status_band status =
     (if status = ''queued'' then 0 else if status = ''processing'' then 1 else 2)"

text \<open>The status a poll reports, when it is answered with HTTP 200.\<close>

fun reported_status :: "poll_outcome \<Rightarrow> string option" where
  "reported_status (Poll_response status_code status polling_response) =
     (if status_code = 200 then Some status else None)"
| "reported_status Poll_raises = None"

definition status_advances :: "poll_outcome \<Rightarrow> poll_outcome \<Rightarrow> bool" where
  "status_advances earlier later =
     (case (reported_status earlier, reported_status later) of
        (Some s, Some s') \<Rightarrow> status_band s \<le> status_band s'
      | _ \<Rightarrow> True)"

text \<open>
  The clock never goes backwards (the elapsed times read during the conversion and at the
  polls are non-negative and do not decrease), and the status reported by a later poll is
  never at an earlier stage than the status reported by an earlier poll.
\<close>

definition steady :: "env \<Rightarrow> bool" where
  "steady env \<longleftrightarrow>
     sorted (running_at env) \<and> (\<forall>t\<in>set (running_at env). 0 \<le> t) \<and>
     (\<forall>j<max_attempts. 0 \<le> poll_elapsed env j \<and>
        (\<forall>i\<le>j. poll_elapsed env i \<le> poll_elapsed env j \<and>
                status_advances (poll_outcome env i) (poll_outcome env j)))"

text \<open>The progress values written so far never went down and are all at most \<open>b\<close>.\<close>

definition up_to :: "int \<Rightarrow> world \<Rightarrow> bool" where
  "up_to b w \<longleftrightarrow> sorted (progress_writes w) \<and> (\<forall>x\<in>set (progress_writes w). x \<le> b)"

section \<open>Well-typed payloads, and the segment the report is to show\<close>

text \<open>
  A payload whose keys, where they are there at all, hold values of the types the
  provider documents: a number for the confidence, an array of objects for the
  utterances, whole numbers for the offsets of an utterance, a string (or \<open>null\<close>) for its
  speaker. Nothing is asked of the order of the two offsets, and every key may be absent.
\<close>

definition usable :: "'a field \<Rightarrow> bool" where
  "usable f \<longleftrightarrow> f \<noteq> Null \<and> f \<noteq> Ill_typed"

definition well_typed_utterance :: "utterance \<Rightarrow> bool" where
  "well_typed_utterance u \<longleftrightarrow> usable (u_start u) \<and> usable (u_end u) \<and> u_speaker u \<noteq> Ill_typed"

definition well_typed :: "transcript_data \<Rightarrow> bool" where
  "well_typed td \<longleftrightarrow>
     usable (t_confidence td) \<and> usable (t_utterances td) \<and>
     (\<forall>u\<in>set (or_default (t_utterances td) []). well_typed_utterance u)"

text \<open>
  The speaker label of an utterance, \<open>A\<close> when it has none, and the segment the report is
  to show for it: both offsets as they are, whichever is the larger, the defaults 0, 0,
  \<open>A\<close> and the empty text for the keys that are absent.
\<close>

definition label_of :: "utterance \<Rightarrow> label" where
  "label_of u = (case u_speaker u of Present s \<Rightarrow> Label s | Null \<Rightarrow> No_label | _ \<Rightarrow> Label ''A'')"

definition expected_segment :: "utterance \<Rightarrow> string" where
  "expected_segment u =
     ''['' @ hms (or_default (u_start u) 0) @ '' - '' @ hms (or_default (u_end u) 0) @
     ''] Speaker '' @ label_str (label_of u) @ '': '' @ get_or (u_text u) '''' @ nl @ nl"

section \<open>Timestamps\<close>

text \<open>
  What \<open>hms\<close> prints for a count of seconds: for \<open>3600 h + 60 m + s\<close> with \<open>h\<close> below 100
  and \<open>m\<close>, \<open>s\<close> below 60, the three numbers with two digits each.
\<close>

lemma str_nat_one_digit: "n < 10 \<Longrightarrow> str_nat n = [digit n]"
  by (subst str_nat.simps) simp

lemma str_nat_two_digits:
  assumes "10 \<le> n" "n < 100"
  shows "str_nat n = [digit (n div 10), digit (n mod 10)]"
proof -
  have "n div 10 < 10" using assms by simp
  then have "str_nat (n div 10) = [digit (n div 10)]" by (rule str_nat_one_digit)
  then show ?thesis using assms by (subst str_nat.simps) simp
qed

lemma fmt_02d_two_digits:
  assumes "0 \<le> i" "i < 100"
  shows "fmt_02d i = [digit (nat i div 10), digit (nat i mod 10)]"
proof (cases "nat i < 10")
  case True
  then have "nat i div 10 = 0" by simp
  moreover have "digit 0 = CHR ''0''" by (simp add: digit_def)
  ultimately show ?thesis using True assms
    by (simp add: fmt_02d_def str_nat_one_digit)
next
  case False
  then have "10 \<le> nat i" "nat i < 100" using assms by auto
  then show ?thesis using assms by (simp add: fmt_02d_def str_nat_two_digits)
qed

lemma hms_parts:
  fixes h m s :: int
  assumes "0 \<le> m" "m < 60" "0 \<le> s" "s < 60"
  shows "(3600 * h + 60 * m + s) div 3600 = h"
    and "((3600 * h + 60 * m + s) mod 3600) div 60 = m"
    and "(3600 * h + 60 * m + s) mod 60 = s"
proof -
  let ?r = "60 * m + s"
  have r: "0 \<le> ?r" "?r < 3600" using assms by auto
  have eq: "3600 * h + 60 * m + s = ?r + h * 3600" by simp
  show "(3600 * h + 60 * m + s) div 3600 = h"
    unfolding eq using r by (simp only: div_mult_self1 div_pos_pos_trivial)
  have md: "(3600 * h + 60 * m + s) mod 3600 = ?r"
    unfolding eq using r by (simp only: mod_mult_self1 mod_pos_pos_trivial)
  have eq2: "?r = s + m * 60" by simp
  show "((3600 * h + 60 * m + s) mod 3600) div 60 = m"
    unfolding md eq2 using assms by (simp only: div_mult_self1 div_pos_pos_trivial)
  have eq3: "3600 * h + 60 * m + s = s + (60 * h + m) * 60" by simp
  show "(3600 * h + 60 * m + s) mod 60 = s"
    unfolding eq3 using assms by (simp only: mod_mult_self1 mod_pos_pos_trivial)
qed

lemma hms_of_seconds:
  assumes "0 \<le> h" "h < 100" "0 \<le> m" "m < 60" "0 \<le> s" "s < 60"
  shows "hms (3600 * h + 60 * m + s) =
           [digit (nat h div 10), digit (nat h mod 10), CHR '':'',
            digit (nat m div 10), digit (nat m mod 10), CHR '':'',
            digit (nat s div 10), digit (nat s mod 10)]"
proof -
  have "fmt_02d h = [digit (nat h div 10), digit (nat h mod 10)]"
    using assms by (intro fmt_02d_two_digits) auto
  moreover have "fmt_02d m = [digit (nat m div 10), digit (nat m mod 10)]"
    using assms by (intro fmt_02d_two_digits) auto
  moreover have "fmt_02d s = [digit (nat s div 10), digit (nat s mod 10)]"
    using assms by (intro fmt_02d_two_digits) auto
  ultimately show ?thesis
    unfolding hms_def Let_def using hms_parts [OF assms(3-6), of h] by simp
qed

section \<open>The layout of the report\<close>

lemma those_map_all:
  "\<forall>x\<in>set xs. f x = Some (g x) \<Longrightarrow> those (map f xs) = Some (map g xs)"
  by (induction xs) simp_all

lemma those_map_none:
  "x \<in> set xs \<Longrightarrow> f x = None \<Longrightarrow> those (map f xs) = None"
  by (induction xs) (auto split: option.splits)

lemma add_segments_those:
  "add_segments c us = map_option (\<lambda>segs. c @ concat segs) (those (map segment us))"
proof (induction us arbitrary: c)
  case Nil
  show ?case by simp
next
  case (Cons u us)
  show ?case
    by (cases "segment u"; cases "those (map segment us)") (simp_all add: Cons)
qed

lemma report_content_layout:
  "report_content td =
     do {
       confidence \<leftarrow> confidence_line td;
       speakers \<leftarrow> speakers_line (t_utterances td);
       us \<leftarrow> typed (t_utterances td) [];
       segs \<leftarrow> those (map segment (utterances_sorted us));
       Some (report_header @ language_line td @ confidence @ speakers @
             nl @ ''=== SEGMENTOS COM FALANTES ==='' @ nl @ nl @ concat segs)
     }"
  unfolding report_content_def Let_def add_segments_those
  by (cases "confidence_line td"; cases "speakers_line (t_utterances td)";
      cases "typed (t_utterances td) []")
     (auto simp: map_option_case split: option.splits)

lemma segment_well_typed:
  "well_typed_utterance u \<Longrightarrow> segment u = Some (expected_segment u)"
  by (cases "u_start u"; cases "u_end u"; cases "u_speaker u")
     (simp_all add: well_typed_utterance_def usable_def segment_def expected_segment_def
        typed_def or_default_def speaker_label_def label_of_def)

lemma segment_ill_typed:
  "\<not> well_typed_utterance u \<Longrightarrow> segment u = None"
  by (cases "u_start u"; cases "u_end u"; cases "u_speaker u")
     (simp_all add: well_typed_utterance_def usable_def segment_def typed_def speaker_label_def)

lemma count_speakers_hashable:
  assumes "\<forall>u\<in>set us. u_speaker u \<noteq> Ill_typed"
  shows "count_speakers us = Some (card (label_of ` set us))"
proof -
  have "\<forall>u\<in>set us. speaker_label u = Some (label_of u)"
    using assms by (auto simp: speaker_label_def label_of_def split: field.splits)
  then have "those (map speaker_label us) = Some (map label_of us)"
    by (rule those_map_all)
  then show ?thesis by (simp add: count_speakers_def)
qed

lemma count_speakers_unhashable:
  assumes "u \<in> set us" and "u_speaker u = Ill_typed"
  shows "count_speakers us = None"
proof -
  have "speaker_label u = None" using assms(2) by (simp add: speaker_label_def)
  with assms(1) have "those (map speaker_label us) = None" by (rule those_map_none)
  then show ?thesis by (simp add: count_speakers_def)
qed

text \<open>
  The report of a well-typed payload, written out: the header, the lines of general
  information, the title of the section and one segment for each utterance, in sorted
  order.
\<close>

lemma report_content_well_typed:
  assumes "well_typed td"
  shows "report_content td =
           Some (report_header @ language_line td @
                 (case t_confidence td of Present c \<Rightarrow> confidence_label @ fmt_2f c @ nl | _ \<Rightarrow> []) @
                 (if or_default (t_utterances td) [] = [] then []
                  else ''Total de falantes: '' @
                       str_nat (card (label_of ` set (or_default (t_utterances td) []))) @ nl) @
                 nl @ ''=== SEGMENTOS COM FALANTES ==='' @ nl @ nl @
                 concat (map expected_segment (utterances_sorted (or_default (t_utterances td) []))))"
proof -
  let ?us = "or_default (t_utterances td) []"
  have wt: "\<forall>u\<in>set ?us. well_typed_utterance u" and uu: "usable (t_utterances td)"
    and uc: "usable (t_confidence td)"
    using assms by (simp_all add: well_typed_def)
  have ty: "typed (t_utterances td) [] = Some ?us"
    using uu by (cases "t_utterances td") (simp_all add: usable_def typed_def or_default_def)
  have conf: "confidence_line td =
          Some (case t_confidence td of Present c \<Rightarrow> confidence_label @ fmt_2f c @ nl | _ \<Rightarrow> [])"
    using uc by (cases "t_confidence td") (simp_all add: usable_def confidence_line_def)
  have tr: "truthy (t_utterances td) \<longleftrightarrow> ?us \<noteq> []"
    using uu by (cases "t_utterances td") (simp_all add: usable_def truthy_def or_default_def)
  have "\<forall>u\<in>set ?us. u_speaker u \<noteq> Ill_typed"
    using wt by (simp add: well_typed_utterance_def)
  then have cnt: "count_speakers ?us = Some (card (label_of ` set ?us))"
    by (rule count_speakers_hashable)
  have sp: "speakers_line (t_utterances td) =
          Some (if ?us = [] then []
                else ''Total de falantes: '' @ str_nat (card (label_of ` set ?us)) @ nl)"
    by (simp add: speakers_line_def tr ty cnt)
  have "\<forall>u\<in>set (utterances_sorted ?us). segment u = Some (expected_segment u)"
    using wt by (simp add: utterances_sorted_def segment_well_typed)
  then have segs: "those (map segment (utterances_sorted ?us)) =
          Some (map expected_segment (utterances_sorted ?us))"
    by (rule those_map_all)
  show ?thesis
    unfolding report_content_layout by (simp add: conf sp ty segs)
qed

text \<open>A payload that is not well-typed makes the formatting raise.\<close>

lemma report_content_ill_typed:
  assumes "\<not> well_typed td"
  shows "report_content td = None"
proof -
  let ?us = "or_default (t_utterances td) []"
  consider (c) "\<not> usable (t_confidence td)" | (u) "\<not> usable (t_utterances td)"
    | (s) u where "usable (t_utterances td)" "u \<in> set ?us" "\<not> well_typed_utterance u"
    using assms by (auto simp: well_typed_def)
  then show ?thesis
  proof cases
    case c
    then have "confidence_line td = None"
      by (cases "t_confidence td") (simp_all add: usable_def confidence_line_def)
    then show ?thesis unfolding report_content_layout by simp
  next
    case u
    then have "typed (t_utterances td) [] = None"
      by (cases "t_utterances td") (simp_all add: usable_def typed_def)
    then show ?thesis unfolding report_content_layout
      by (simp split: Option.bind_splits)
  next
    case s
    have ty: "typed (t_utterances td) [] = Some ?us"
      using s(1) by (cases "t_utterances td") (simp_all add: usable_def typed_def or_default_def)
    have "u \<in> set (utterances_sorted ?us)" using s(2) by (simp add: utterances_sorted_def)
    moreover have "segment u = None" using s(3) by (rule segment_ill_typed)
    ultimately have "those (map segment (utterances_sorted ?us)) = None"
      by (rule those_map_none)
    then show ?thesis unfolding report_content_layout
      by (simp add: ty split: Option.bind_splits)
  qed
qed

lemma report_content_Some_well_typed:
  "report_content td = Some content \<Longrightarrow> well_typed td"
  using report_content_ill_typed [of td] by auto

text \<open>The report and the speaker count of the payload with two speakers.\<close>

lemma report_two_speakers:
  "report_content payload_two_speakers =
     Some (report_header @ ''Idioma detectado: pt'' @ nl @ confidence_label @ ''0.93'' @ nl @
           ''Total de falantes: 2'' @ nl @ nl @ ''=== SEGMENTOS COM FALANTES ==='' @ nl @ nl @
           ''[00:00:00 - 00:00:00] Speaker A: '' @ nl @ nl @
           ''[00:00:10 - 00:00:05] Speaker B: x'' @ nl @ nl @
           ''[00:16:40 - 00:31:40] Speaker A: ok'' @ nl @ nl @
           ''[01:23:20 - 01:38:20] Speaker B: ok'' @ nl @ nl)"
  by code_simp

lemma count_two_speakers: "result_speakers_count payload_two_speakers = Some 2"
  by code_simp

text \<open>
  Claim C1. The provider reports the offsets in milliseconds, and the formatter is to
  print the start offset 3723000 as \<open>01:02:03\<close>. The code divides the raw value by 3600
  and 60 as if it were a count of seconds: for a payload whose one utterance starts at
  3723000 and ends at 3725000 the report shows \<open>1034:10:00 - 1034:43:20\<close>. The same
  formatter prints \<open>01:02:03\<close> for the value 3723, the offset divided by 1000.
\<close>

theorem milliseconds_offset_is_printed_as_seconds:
  "report_content payload_ms =
     Some (report_header @ ''Total de falantes: 1'' @ nl @ nl @
           ''=== SEGMENTOS COM FALANTES ==='' @ nl @ nl @
           ''[1034:10:00 - 1034:43:20] Speaker A: ola'' @ nl @ nl) \<and>
   segment utt_ms = Some (''[1034:10:00 - 1034:43:20] Speaker A: ola'' @ nl @ nl) \<and>
   hms 3723000 \<noteq> ''01:02:03'' \<and>
   hms (3723000 div 1000) = ''01:02:03'' \<and>
   segment utt_sec = Some (''[01:02:03 - 01:02:05] Speaker A: ola'' @ nl @ nl)"
  by code_simp

text \<open>
  Claim C6. The report ends with the segments of the utterances in the order of a stable
  sort by start offset (a missing start counting as 0): the sorted list is ascending in
  the start offset, holds the same utterances as the input, and keeps the utterances of
  equal start in their original relative order. Inputs with starts 5000, 1000, 3000 are
  rendered in the order 1000, 3000, 5000.
\<close>

theorem utterances_listed_by_start_stable:
  "report_content td =
     do {
       confidence \<leftarrow> confidence_line td;
       speakers \<leftarrow> speakers_line (t_utterances td);
       us \<leftarrow> typed (t_utterances td) [];
       segs \<leftarrow> those (map segment (utterances_sorted us));
       Some (report_header @ language_line td @ confidence @ speakers @
             nl @ ''=== SEGMENTOS COM FALANTES ==='' @ nl @ nl @ concat segs)
     } \<and>
   sorted (map (\<lambda>u. or_default (u_start u) 0) (utterances_sorted us)) \<and>
   mset (utterances_sorted us) = mset us \<and>
   filter (\<lambda>u. or_default (u_start u) 0 = k) (utterances_sorted us) =
     filter (\<lambda>u. or_default (u_start u) 0 = k) us \<and>
   map u_start (utterances_sorted [utt_at ''A'' 5000, utt_at ''B'' 1000, utt_at ''C'' 3000]) =
     [Present 1000, Present 3000, Present 5000] \<and>
   report_content
     \<lparr>t_text = None, t_language_code = None, t_confidence = Absent,
      t_utterances = Present [utt_at ''A'' 5000, utt_at ''B'' 1000, utt_at ''C'' 3000]\<rparr> =
     Some (report_header @ ''Total de falantes: 3'' @ nl @ nl @
           ''=== SEGMENTOS COM FALANTES ==='' @ nl @ nl @
           ''[00:16:40 - 00:31:40] Speaker B: ok'' @ nl @ nl @
           ''[00:50:00 - 01:05:00] Speaker C: ok'' @ nl @ nl @
           ''[01:23:20 - 01:38:20] Speaker A: ok'' @ nl @ nl)"
proof -
  have a: "map u_start (utterances_sorted [utt_at ''A'' 5000, utt_at ''B'' 1000, utt_at ''C'' 3000]) =
     [Present 1000, Present 3000, Present 5000]"
    by (simp add: utterances_sorted_def utt_at_def or_default_def)
  have b: "report_content
     \<lparr>t_text = None, t_language_code = None, t_confidence = Absent,
      t_utterances = Present [utt_at ''A'' 5000, utt_at ''B'' 1000, utt_at ''C'' 3000]\<rparr> =
     Some (report_header @ ''Total de falantes: 3'' @ nl @ nl @
           ''=== SEGMENTOS COM FALANTES ==='' @ nl @ nl @
           ''[00:16:40 - 00:31:40] Speaker B: ok'' @ nl @ nl @
           ''[00:50:00 - 01:05:00] Speaker C: ok'' @ nl @ nl @
           ''[01:23:20 - 01:38:20] Speaker A: ok'' @ nl @ nl)"
    by code_simp
  have c: "sorted (map (\<lambda>u. or_default (u_start u) 0) (utterances_sorted us))"
    by (simp add: utterances_sorted_def)
  have d: "mset (utterances_sorted us) = mset us"
    by (simp add: utterances_sorted_def)
  have e: "filter (\<lambda>u. or_default (u_start u) 0 = k) (utterances_sorted us) =
     filter (\<lambda>u. or_default (u_start u) 0 = k) us"
    by (simp add: utterances_sorted_def sort_key_stable)
  show ?thesis
    using report_content_layout [of td] a b c d e by (simp only: simp_thms)
qed

section \<open>Saving the report\<close>

text \<open>
  What a successful \<open>save_transcript\<close> does: it writes the report text under a name made
  of the clock's timestamp and the original file's stem, and nothing else.
\<close>

lemma save_transcript_written:
  assumes "save_transcript env td original w = (Some p, w')"
  shows "p = output_dir @ ''/'' @ timestamp env @ ''_'' @ stem original @ ''_transcript.txt''"
    and "\<exists>content. report_content td = Some content \<and>
           w' = emit (Write_file p) (w\<lparr>files := (files w)(p \<mapsto> content)\<rparr>)"
  using assms by (auto simp: save_transcript_def Let_def split: if_splits option.splits)

text \<open>When the formatting raises, the error is logged and nothing is written.\<close>

lemma save_transcript_ill_typed:
  assumes "\<not> well_typed td"
  shows "save_transcript env td original w = (None, emit (Log_error Erro_ao_salvar) w)"
  using report_content_ill_typed [OF assms] by (simp add: save_transcript_def Let_def)

lemma save_transcript_null_start:
  "save_transcript env payload_null_start original w = (None, emit (Log_error Erro_ao_salvar) w)"
proof -
  have "report_content payload_null_start = None" by code_simp
  then show ?thesis by (simp add: save_transcript_def Let_def)
qed

text \<open>
  Claim C8. Two invocations of the formatter on the same transcription result write the
  same bytes, whatever the clock reads, whatever the file is called and whatever the
  state before; the text is \<open>report_content\<close> of the payload. Beyond writing that file
  (and recording the write) an invocation changes nothing: no job field, no other file.
\<close>

theorem report_text_is_a_function_of_the_payload:
  assumes "save_transcript env1 td original1 w1 = (Some p1, w1')"
    and "save_transcript env2 td original2 w2 = (Some p2, w2')"
  shows "files w1' p1 = report_content td \<and> files w2' p2 = files w1' p1 \<and>
         (\<exists>content. report_content td = Some content \<and>
            files w1' = (files w1)(p1 \<mapsto> content)) \<and>
         jobs_status w1' = jobs_status w1 \<and> progress_writes w1' = progress_writes w1 \<and>
         events w1' = events w1 @ [Write_file p1]"
  using save_transcript_written(2) [OF assms(1)] save_transcript_written(2) [OF assms(2)]
  by (auto simp: emit_def)

theorem report_text_is_a_function_of_the_payload_witness:
  "save_transcript env_ok payload_two_speakers ogg_path world0 =
     (Some ''results/20250903_215613_a_transcript.txt'',
      snd (save_transcript env_ok payload_two_speakers ogg_path world0)) \<and>
   save_transcript env_later payload_two_speakers (ogg_path\<lparr>stem := ''b''\<rparr>) world_completed =
     (Some ''results/20260101_000000_b_transcript.txt'',
      snd (save_transcript env_later payload_two_speakers (ogg_path\<lparr>stem := ''b''\<rparr>) world_completed)) \<and>
   files (snd (save_transcript env_later payload_two_speakers (ogg_path\<lparr>stem := ''b''\<rparr>) world_completed))
      ''results/20260101_000000_b_transcript.txt'' =
   files (snd (save_transcript env_ok payload_two_speakers ogg_path world0))
      ''results/20250903_215613_a_transcript.txt'' \<and>
   files (snd (save_transcript env_ok payload_two_speakers ogg_path world0))
      ''results/20250903_215613_a_transcript.txt'' = report_content payload_two_speakers"
proof -
  have a: "save_transcript env_ok payload_two_speakers ogg_path world0 =
     (Some ''results/20250903_215613_a_transcript.txt'',
      snd (save_transcript env_ok payload_two_speakers ogg_path world0))"
    by (simp add: save_transcript_def Let_def report_two_speakers env_ok_def ogg_path_def
        output_dir_def)
  have b: "save_transcript env_later payload_two_speakers (ogg_path\<lparr>stem := ''b''\<rparr>) world_completed =
     (Some ''results/20260101_000000_b_transcript.txt'',
      snd (save_transcript env_later payload_two_speakers (ogg_path\<lparr>stem := ''b''\<rparr>) world_completed))"
    by (simp add: save_transcript_def Let_def report_two_speakers env_later_def env_ok_def
        ogg_path_def output_dir_def)
  show ?thesis
    using a b report_text_is_a_function_of_the_payload [OF a b] by simp
qed

section \<open>The entry operation\<close>

text \<open>
  Claim C9. For a job whose status is not \<open>uploaded\<close> (it is \<open>processing\<close>, \<open>completed\<close>
  or \<open>error\<close>), \<open>start_transcription\<close> answers 400 "Job ja processado", starts no
  thread, and leaves the whole state, and so every field of the job, as it was.
\<close>

theorem start_rejected_unless_uploaded:
  assumes "jobs_status w job_id = Some job" and "j_status job \<noteq> Uploaded"
  shows "start_transcription job_id w = (Job_ja_processado, w) \<and>
         run env job_id w = (Job_ja_processado, w)"
  using assms by (simp add: start_transcription_def run_def)

theorem start_rejected_unless_uploaded_witness:
  "jobs_status world_completed ''job1'' = Some job_completed \<and>
   j_status job_completed \<noteq> Uploaded \<and>
   start_transcription ''job1'' world_completed = (Job_ja_processado, world_completed) \<and>
   run env_ok ''job1'' world_completed = (Job_ja_processado, world_completed)"
proof -
  have a: "jobs_status world_completed ''job1'' = Some job_completed"
    by (simp add: world_completed_def world0_def)
  have b: "j_status job_completed \<noteq> Uploaded"
    by (simp add: job_completed_def)
  show ?thesis
    using a b start_rejected_unless_uploaded [OF a b, of env_ok] by simp
qed

section \<open>Malformed utterances\<close>

text \<open>
  Claim C10. For every transcription result whose keys hold values of the types of the
  provider's contract, whatever keys its utterances lack and whichever of the two
  offsets of an utterance is the larger, the formatter writes its report whenever the
  file itself can be written. The report holds one segment for each utterance of the
  result, none left out: the offsets as they are, with the label \<open>A\<close>, the offsets 0
  and the empty text for the keys that are absent. (On a key of another type the
  formatter does not raise either, but it writes no report: lemma
  \<open>save_transcript_ill_typed\<close>.)
\<close>

theorem formatter_renders_any_utterances:
  assumes "well_typed td" and "\<not> write_raises env"
  shows "(\<exists>p w'. save_transcript env td original w = (Some p, w') \<and>
            files w' p =
              Some (report_header @ language_line td @
                    (case t_confidence td of Present c \<Rightarrow> confidence_label @ fmt_2f c @ nl
                     | _ \<Rightarrow> []) @
                    (if or_default (t_utterances td) [] = [] then []
                     else ''Total de falantes: '' @
                          str_nat (card (label_of ` set (or_default (t_utterances td) []))) @ nl) @
                    nl @ ''=== SEGMENTOS COM FALANTES ==='' @ nl @ nl @
                    concat (map expected_segment
                              (utterances_sorted (or_default (t_utterances td) []))))) \<and>
         mset (map expected_segment (utterances_sorted (or_default (t_utterances td) []))) =
           mset (map expected_segment (or_default (t_utterances td) [])) \<and>
         expected_segment \<lparr>u_speaker = Absent, u_start = Absent, u_end = Absent, u_text = None\<rparr> =
           ''[00:00:00 - 00:00:00] Speaker A: '' @ nl @ nl"
proof -
  have a: "\<exists>p w'. save_transcript env td original w = (Some p, w') \<and>
            files w' p =
              Some (report_header @ language_line td @
                    (case t_confidence td of Present c \<Rightarrow> confidence_label @ fmt_2f c @ nl
                     | _ \<Rightarrow> []) @
                    (if or_default (t_utterances td) [] = [] then []
                     else ''Total de falantes: '' @
                          str_nat (card (label_of ` set (or_default (t_utterances td) []))) @ nl) @
                    nl @ ''=== SEGMENTOS COM FALANTES ==='' @ nl @ nl @
                    concat (map expected_segment
                              (utterances_sorted (or_default (t_utterances td) []))))"
    using assms(2) report_content_well_typed [OF assms(1)]
    by (simp add: save_transcript_def Let_def emit_def)
  have b: "mset (map expected_segment (utterances_sorted (or_default (t_utterances td) []))) =
           mset (map expected_segment (or_default (t_utterances td) []))"
    by (simp add: utterances_sorted_def)
  have c: "expected_segment \<lparr>u_speaker = Absent, u_start = Absent, u_end = Absent, u_text = None\<rparr> =
           ''[00:00:00 - 00:00:00] Speaker A: '' @ nl @ nl"
    by code_simp
  show ?thesis using a b c by (simp only: simp_thms)
qed

lemma well_typed_two_speakers: "well_typed payload_two_speakers"
  by (simp add: well_typed_def well_typed_utterance_def usable_def or_default_def
      payload_two_speakers_def utt_at_def utt_bare_def utt_backwards_def)

theorem formatter_renders_any_utterances_witness:
  "well_typed payload_two_speakers \<and> \<not> write_raises env_ok \<and>
   (\<exists>p w'. save_transcript env_ok payload_two_speakers ogg_path world0 = (Some p, w') \<and>
      files w' p =
        Some (report_header @ ''Idioma detectado: pt'' @ nl @ confidence_label @ ''0.93'' @ nl @
              ''Total de falantes: 2'' @ nl @ nl @ ''=== SEGMENTOS COM FALANTES ==='' @ nl @ nl @
              ''[00:00:00 - 00:00:00] Speaker A: '' @ nl @ nl @
              ''[00:00:10 - 00:00:05] Speaker B: x'' @ nl @ nl @
              ''[00:16:40 - 00:31:40] Speaker A: ok'' @ nl @ nl @
              ''[01:23:20 - 01:38:20] Speaker B: ok'' @ nl @ nl))"
proof -
  have a: "well_typed payload_two_speakers" by (rule well_typed_two_speakers)
  have b: "\<not> write_raises env_ok" by (simp add: env_ok_def)
  from formatter_renders_any_utterances [OF a b, of ogg_path world0]
  obtain p w' where s: "save_transcript env_ok payload_two_speakers ogg_path world0 = (Some p, w')"
    and f: "files w' p =
              Some (report_header @ language_line payload_two_speakers @
                    (case t_confidence payload_two_speakers of
                       Present c \<Rightarrow> confidence_label @ fmt_2f c @ nl | _ \<Rightarrow> []) @
                    (if or_default (t_utterances payload_two_speakers) [] = [] then []
                     else ''Total de falantes: '' @
                          str_nat (card (label_of `
                            set (or_default (t_utterances payload_two_speakers) []))) @ nl) @
                    nl @ ''=== SEGMENTOS COM FALANTES ==='' @ nl @ nl @
                    concat (map expected_segment
                              (utterances_sorted (or_default (t_utterances payload_two_speakers) []))))"
    by blast
  from f have "files w' p = report_content payload_two_speakers"
    by (simp only: report_content_well_typed [OF a])
  then show ?thesis using a b s by (simp add: report_two_speakers)
qed

section \<open>How the steps change the state\<close>

lemma emit_fields [simp]:
  "jobs_status (emit e w) = jobs_status w"
  "files (emit e w) = files w"
  "progress_writes (emit e w) = progress_writes w"
  "events (emit e w) = events w @ [e]"
  by (simp_all add: emit_def)

lemma set_progress_fields [simp]:
  "files (set_progress js p m w) = files w"
  "events (set_progress js p m w) = events w"
  "progress_writes (set_progress js p m w) =
     (if js = None then progress_writes w else progress_writes w @ [p])"
  "jobs_status (set_progress js p m w) k =
     (if js = Some k then map_option (\<lambda>j. j\<lparr>j_progress := p, j_message := m\<rparr>) (jobs_status w k)
      else jobs_status w k)"
  by (auto simp: set_progress_def split: option.splits)

lemma update_job_fields [simp]:
  "files (update_job k f w) = files w"
  "events (update_job k f w) = events w"
  "progress_writes (update_job k f w) = progress_writes w"
  "jobs_status (update_job k f w) k' =
     (if k' = k then map_option f (jobs_status w k) else jobs_status w k')"
  by (simp_all add: update_job_def)

lemma on_progress_unfold:
  "on_progress js p w =
     (if js = None then w
      else emit (Sleep (1 / 10))
             (set_progress js (10 + py_int (of_int p * (3 / 10))) (Convertendo_arquivo_pct p) w))"
  by (simp add: on_progress_def)

text \<open>
  Every step of the service acts on the state through \<open>emit\<close>, \<open>set_progress\<close> and the
  writing or removal of a file, so a property kept by these three is kept by the step.
\<close>

lemma on_progress_invariant:
  assumes "I w"
    and e: "\<And>e w. I w \<Longrightarrow> I (emit e w)"
    and p: "\<And>p m w. I w \<Longrightarrow> I (set_progress js p m w)"
  shows "I (on_progress js q w)"
proof (cases "js = None")
  case True
  then show ?thesis using assms(1) by (simp add: on_progress_unfold)
next
  case False
  then show ?thesis using e [OF p [OF assms(1)]] by (auto simp: on_progress_unfold)
qed

lemma while_running_invariant:
  assumes "I w"
    and e: "\<And>e w. I w \<Longrightarrow> I (emit e w)"
    and p: "\<And>p m w. I w \<Longrightarrow> I (set_progress js p m w)"
  shows "I (while_running js ts w)"
  using assms(1)
proof (induction ts arbitrary: w)
  case Nil
  then show ?case by simp
next
  case (Cons t ts)
  have "I (on_progress js (min (py_int (t * 10)) 90) w)"
    by (rule on_progress_invariant [OF Cons.prems e p])
  then have "I (emit (Sleep (1 / 10)) (on_progress js (min (py_int (t * 10)) 90) w))"
    by (rule e)
  then have "I (while_running js ts (emit (Sleep (1 / 10)) (on_progress js (min (py_int (t * 10)) 90) w)))"
    by (rule Cons.IH)
  then show ?case by (simp add: Let_def)
qed

lemma convert_to_mp3_invariant:
  assumes "I w"
    and e: "\<And>e w. I w \<Longrightarrow> I (emit e w)"
    and p: "\<And>p m w. I w \<Longrightarrow> I (set_progress js p m w)"
    and f: "\<And>f w. I w \<Longrightarrow> I (w\<lparr>files := f\<rparr>)"
  shows "I (snd (convert_to_mp3 env ip js w))"
proof (cases "popen_raises env")
  case True
  then show ?thesis using e [OF assms(1)] by (simp add: convert_to_mp3_def)
next
  case False
  define w1 where "w1 = while_running js (running_at env)
      (emit (Ffmpeg (path_str ip) (path_str (with_suffix ip ''.mp3''))) w)"
  define w2 where "w2 = (case ffmpeg_wrote env of None \<Rightarrow> w1
     | Some data \<Rightarrow> w1\<lparr>files := (files w1)(path_str (with_suffix ip ''.mp3'') \<mapsto> data)\<rparr>)"
  have w1: "I w1" unfolding w1_def
    by (rule while_running_invariant [OF e [OF assms(1)] e p])
  have w2: "I w2"
  proof (cases "ffmpeg_wrote env")
    case None
    then show ?thesis using w1 by (simp add: w2_def)
  next
    case (Some d)
    then show ?thesis using f [OF w1] by (simp add: w2_def)
  qed
  have eq: "convert_to_mp3 env ip js w =
     (if returncode env = 0 then (Some (path_str (with_suffix ip ''.mp3'')), on_progress js 100 w2)
      else (None, emit (Log_error Erro_na_conversao) w2))"
    unfolding w2_def w1_def using False by (simp add: convert_to_mp3_def Let_def)
  show ?thesis
    unfolding eq using on_progress_invariant [OF w2 e p, of 100] e [OF w2] by simp
qed

lemma upload_file_invariant:
  assumes "I w"
    and e: "\<And>e w. I w \<Longrightarrow> I (emit e w)"
    and p: "\<And>p m w. I w \<Longrightarrow> I (set_progress js p m w)"
  shows "I (snd (upload_file env fp js w))"
proof (cases "files w fp")
  case None
  then show ?thesis using e [OF assms(1)] by (simp add: upload_file_def)
next
  case (Some d)
  have u: "I (emit (Upload fp d) w)" by (rule e [OF assms(1)])
  show ?thesis
  proof (cases "upload_outcome env")
    case Upload_raises
    then show ?thesis using Some e [OF u] by (simp add: upload_file_def Let_def)
  next
    case (Upload_response c url)
    then show ?thesis using Some e [OF u] p [OF u] by (simp add: upload_file_def Let_def)
  qed
qed

subsection \<open>The polling loop, case by case\<close>

lemma poll_loop_exhausted:
  "\<not> attempts < max_attempts \<Longrightarrow>
     poll_loop env tid js attempts w = (None, emit (Log_error Timeout) w)"
  by (subst poll_loop.simps) simp

lemma poll_loop_raises:
  "attempts < max_attempts \<Longrightarrow> poll_outcome env attempts = Poll_raises \<Longrightarrow>
     poll_loop env tid js attempts w =
       (None, emit (Log_error Erro_na_transcricao) (emit (Poll tid) w))"
  by (subst poll_loop.simps) simp

lemma poll_loop_http_error:
  "attempts < max_attempts \<Longrightarrow> poll_outcome env attempts = Poll_response c s td \<Longrightarrow> c \<noteq> 200 \<Longrightarrow>
     poll_loop env tid js attempts w =
       (None, emit (Log_error Erro_no_polling) (emit (Poll tid) w))"
  by (subst poll_loop.simps) simp

lemma poll_loop_completed:
  "attempts < max_attempts \<Longrightarrow> poll_outcome env attempts = Poll_response 200 ''completed'' td \<Longrightarrow>
     poll_loop env tid js attempts w =
       (Some td,
        set_progress js 95 Transcricao_concluida
          (set_progress js (min (synth_progress ''completed'' (poll_elapsed env attempts)) 90)
             (synth_message ''completed'') (emit (Poll tid) w)))"
  by (subst poll_loop.simps) (simp add: Let_def)

lemma poll_loop_remote_error:
  "attempts < max_attempts \<Longrightarrow> poll_outcome env attempts = Poll_response 200 ''error'' td \<Longrightarrow>
     poll_loop env tid js attempts w =
       (None,
        emit (Log_error Erro_na_transcricao)
          (set_progress js (min (synth_progress ''error'' (poll_elapsed env attempts)) 90)
             (synth_message ''error'') (emit (Poll tid) w)))"
  by (subst poll_loop.simps) (simp add: Let_def)

lemma poll_loop_pending:
  "attempts < max_attempts \<Longrightarrow> poll_outcome env attempts = Poll_response 200 s td \<Longrightarrow>
   s \<noteq> ''completed'' \<Longrightarrow> s \<noteq> ''error'' \<Longrightarrow>
     poll_loop env tid js attempts w =
       poll_loop env tid js (Suc attempts)
         (emit (Sleep 5)
            (set_progress js (min (synth_progress s (poll_elapsed env attempts)) 90)
               (synth_message s) (emit (Poll tid) w)))"
  by (subst poll_loop.simps) (simp add: Let_def)

text \<open>The five ways one turn of the loop can go.\<close>

lemma poll_turn_cases:
  obtains
    (raises) "poll_outcome env attempts = Poll_raises"
  | (http_error) c s td where "poll_outcome env attempts = Poll_response c s td" "c \<noteq> 200"
  | (completed) td where "poll_outcome env attempts = Poll_response 200 ''completed'' td"
  | (remote_error) td where "poll_outcome env attempts = Poll_response 200 ''error'' td"
  | (pending) s td where "poll_outcome env attempts = Poll_response 200 s td"
      "s \<noteq> ''completed''" "s \<noteq> ''error''"
proof (cases "poll_outcome env attempts")
  case Poll_raises
  then show ?thesis by (rule that(1))
next
  case (Poll_response c s td)
  show ?thesis
  proof (cases "c = 200")
    case False
    with Poll_response show ?thesis by (rule that(2))
  next
    case True
    note ok = Poll_response [unfolded True]
    show ?thesis
    proof (cases "s = ''completed''")
      case True
      show ?thesis by (rule that(3) [OF ok [unfolded True]])
    next
      case not_completed: False
      show ?thesis
      proof (cases "s = ''error''")
        case True
        show ?thesis by (rule that(4) [OF ok [unfolded True]])
      next
        case False
        show ?thesis by (rule that(5) [OF ok not_completed False])
      qed
    qed
  qed
qed

lemma poll_loop_invariant:
  assumes "I w"
    and e: "\<And>e w. I w \<Longrightarrow> I (emit e w)"
    and p: "\<And>p m w. I w \<Longrightarrow> I (set_progress js p m w)"
  shows "I (snd (poll_loop env tid js attempts w))"
  using assms(1)
proof (induction "max_attempts - attempts" arbitrary: attempts w)
  case 0
  then have "\<not> attempts < max_attempts" by simp
  then show ?case using e [OF "0.prems"] by (simp add: poll_loop_exhausted)
next
  case (Suc n)
  then have lt: "attempts < max_attempts" by simp
  have polled: "I (set_progress js (min (synth_progress s (poll_elapsed env attempts)) 90)
             (synth_message s) (emit (Poll tid) w))" for s
    by (rule p [OF e [OF Suc.prems]])
  show ?case
  proof (cases rule: poll_turn_cases [of env attempts])
    case raises
    then show ?thesis using lt e [OF e [OF Suc.prems]] by (simp add: poll_loop_raises)
  next
    case (http_error c s td)
    then show ?thesis using lt e [OF e [OF Suc.prems]] by (simp add: poll_loop_http_error)
  next
    case (completed td)
    then show ?thesis using lt p [OF polled] by (simp add: poll_loop_completed)
  next
    case (remote_error td)
    then show ?thesis using lt e [OF polled] by (simp add: poll_loop_remote_error)
  next
    case (pending s td)
    have n: "n = max_attempts - Suc attempts" using Suc.hyps(2) by simp
    have "I (snd (poll_loop env tid js (Suc attempts)
         (emit (Sleep 5)
            (set_progress js (min (synth_progress s (poll_elapsed env attempts)) 90)
               (synth_message s) (emit (Poll tid) w)))))"
      by (rule Suc.hyps(1) [OF n e [OF polled]])
    then show ?thesis using lt pending by (simp add: poll_loop_pending)
  qed
qed

lemma transcribe_audio_api_invariant:
  assumes "I w"
    and e: "\<And>e w. I w \<Longrightarrow> I (emit e w)"
    and p: "\<And>p m w. I w \<Longrightarrow> I (set_progress js p m w)"
  shows "I (snd (transcribe_audio_api env url js w))"
proof -
  have s: "I (emit (Submit url) (set_progress js 55 Iniciando_transcricao w))"
    by (rule e [OF p [OF assms(1)]])
  show ?thesis
  proof (cases "submit_outcome env")
    case Submit_raises
    then show ?thesis using e [OF s] by (simp add: transcribe_audio_api_def Let_def)
  next
    case (Submit_response c tid)
    then show ?thesis
      using e [OF s] poll_loop_invariant [of I, OF s e p, of env tid 0]
      by (simp add: transcribe_audio_api_def Let_def)
  qed
qed

lemma save_transcript_invariant:
  assumes "I w"
    and e: "\<And>e w. I w \<Longrightarrow> I (emit e w)"
    and f: "\<And>f w. I w \<Longrightarrow> I (w\<lparr>files := f\<rparr>)"
  shows "I (snd (save_transcript env td original w))"
  using e [OF assms(1)] e [OF f [OF assms(1)]]
  by (simp add: save_transcript_def Let_def split: option.splits)

lemma unlink_invariant:
  assumes "I w"
    and e: "\<And>e w. I w \<Longrightarrow> I (emit e w)"
    and f: "\<And>f w. I w \<Longrightarrow> I (w\<lparr>files := f\<rparr>)"
  shows "I (unlink env fp w)"
  using assms(1) e [OF f [OF assms(1)]]
  by (simp add: unlink_def)

lemma after_conversion_invariant:
  assumes "I w"
    and e: "\<And>e w. I w \<Longrightarrow> I (emit e w)"
    and p: "\<And>p m w. I w \<Longrightarrow> I (set_progress js p m w)"
    and f: "\<And>f w. I w \<Longrightarrow> I (w\<lparr>files := f\<rparr>)"
  shows "I (snd (after_conversion env ip pf js w))"
proof -
  note up = upload_file_invariant [where I = I and js = js, OF _ e p]
  note api = transcribe_audio_api_invariant [where I = I and js = js, OF _ e p]
  note save = save_transcript_invariant [where I = I, OF _ e f]
  note unl = unlink_invariant [where I = I, OF _ e f]
  show ?thesis
    apply (simp add: after_conversion_def Let_def split_def split: option.splits)
    apply (intro conjI impI allI e p up api save unl assms(1); assumption)
    done
qed

lemma transcribe_audio_invariant:
  assumes "I w"
    and e: "\<And>e w. I w \<Longrightarrow> I (emit e w)"
    and p: "\<And>p m w. I w \<Longrightarrow> I (set_progress js p m w)"
    and f: "\<And>f w. I w \<Longrightarrow> I (w\<lparr>files := f\<rparr>)"
  shows "I (snd (transcribe_audio env ip js w))"
proof -
  note conv = convert_to_mp3_invariant [where I = I and js = js, OF _ e p f]
  note after = after_conversion_invariant [where I = I and js = js, OF _ e p f]
  show ?thesis
    apply (simp add: transcribe_audio_def Let_def split_def)
    apply (intro conjI impI allI after conv assms(1); assumption)
    done
qed

section \<open>What the polling loop returns\<close>

lemma poll_loop_completed_poll:
  assumes "fst (poll_loop env tid js attempts w) = Some td"
  shows "\<exists>i<max_attempts. poll_outcome env i = Poll_response 200 ''completed'' td"
  using assms
proof (induction "max_attempts - attempts" arbitrary: attempts w)
  case 0
  then have "\<not> attempts < max_attempts" by simp
  then show ?case using "0.prems" by (simp add: poll_loop_exhausted)
next
  case (Suc n)
  then have lt: "attempts < max_attempts" by simp
  show ?case
  proof (cases rule: poll_turn_cases [of env attempts])
    case raises
    then show ?thesis using lt Suc.prems by (simp add: poll_loop_raises)
  next
    case (http_error c s td')
    then show ?thesis using lt Suc.prems by (simp add: poll_loop_http_error)
  next
    case (completed td')
    then have "td' = td" using lt Suc.prems by (simp add: poll_loop_completed)
    then show ?thesis using lt completed by blast
  next
    case (remote_error td')
    then show ?thesis using lt Suc.prems by (simp add: poll_loop_remote_error)
  next
    case (pending s td')
    have n: "n = max_attempts - Suc attempts" using Suc.hyps(2) by simp
    show ?thesis
      by (rule Suc.hyps(1) [OF n Suc.prems [unfolded poll_loop_pending [OF lt pending]]])
  qed
qed

text \<open>
  More precisely, the payload returned is that of the first poll that is not pending: it
  is answered with the status \<open>completed\<close>, and every poll before it with HTTP 200 and a
  status other than \<open>completed\<close> and \<open>error\<close>.
\<close>

lemma poll_loop_first_completed_poll:
  assumes "fst (poll_loop env tid js attempts w) = Some td"
  shows "\<exists>i. attempts \<le> i \<and> i < max_attempts \<and>
           poll_outcome env i = Poll_response 200 ''completed'' td \<and>
           (\<forall>j. attempts \<le> j \<and> j < i \<longrightarrow>
              (\<exists>s td'. poll_outcome env j = Poll_response 200 s td' \<and>
                 s \<noteq> ''completed'' \<and> s \<noteq> ''error''))"
proof -
  define P where "P = (\<lambda>j. \<exists>s td'. poll_outcome env j = Poll_response 200 s td' \<and>
                 s \<noteq> ''completed'' \<and> s \<noteq> ''error'')"
  have "\<exists>i. attempts \<le> i \<and> i < max_attempts \<and>
           poll_outcome env i = Poll_response 200 ''completed'' td \<and>
           (\<forall>j. attempts \<le> j \<and> j < i \<longrightarrow> P j)"
    using assms
  proof (induction "max_attempts - attempts" arbitrary: attempts w)
    case 0
    then have "\<not> attempts < max_attempts" by simp
    then show ?case using "0.prems" by (simp add: poll_loop_exhausted)
  next
    case (Suc n)
    then have lt: "attempts < max_attempts" by simp
    show ?case
    proof (cases rule: poll_turn_cases [of env attempts])
      case raises
      then show ?thesis using lt Suc.prems by (simp add: poll_loop_raises)
    next
      case (http_error c s td')
      then show ?thesis using lt Suc.prems by (simp add: poll_loop_http_error)
    next
      case (completed td')
      then have "td' = td" using lt Suc.prems by (simp add: poll_loop_completed)
      then have "poll_outcome env attempts = Poll_response 200 ''completed'' td"
        using completed by simp
      moreover have "\<forall>j. attempts \<le> j \<and> j < attempts \<longrightarrow> P j" by auto
      ultimately show ?thesis using lt by blast
    next
      case (remote_error td')
      then show ?thesis using lt Suc.prems by (simp add: poll_loop_remote_error)
    next
      case (pending s td')
      have Pa: "P attempts" unfolding P_def using pending by blast
      have n: "n = max_attempts - Suc attempts" using Suc.hyps(2) by simp
      from Suc.hyps(1) [OF n Suc.prems [unfolded poll_loop_pending [OF lt pending]]]
      obtain i where i: "Suc attempts \<le> i" "i < max_attempts"
          "poll_outcome env i = Poll_response 200 ''completed'' td"
        and before: "\<forall>j. Suc attempts \<le> j \<and> j < i \<longrightarrow> P j"
        by blast
      have "P j" if "attempts \<le> j \<and> j < i" for j
      proof (cases "j = attempts")
        case True
        then show ?thesis using Pa by simp
      next
        case False
        then have "Suc attempts \<le> j \<and> j < i" using that by simp
        then show ?thesis using before by blast
      qed
      then have "attempts \<le> i \<and> i < max_attempts \<and>
           poll_outcome env i = Poll_response 200 ''completed'' td \<and>
           (\<forall>j. attempts \<le> j \<and> j < i \<longrightarrow> P j)"
        using i by simp
      then show ?thesis by (rule exI)
    qed
  qed
  then show ?thesis unfolding P_def .
qed

lemma poll_loop_times_out:
  assumes "\<forall>i<max_attempts. \<exists>s td. poll_outcome env i = Poll_response 200 s td \<and>
             s \<noteq> ''completed'' \<and> s \<noteq> ''error''"
  shows "fst (poll_loop env tid js attempts w) = None \<and>
         events (snd (poll_loop env tid js attempts w)) =
           events w @ concat (replicate (max_attempts - attempts) [Poll tid, Sleep 5]) @
           [Log_error Timeout]"
proof (induction "max_attempts - attempts" arbitrary: attempts w)
  case 0
  then have "\<not> attempts < max_attempts" by simp
  then show ?case using "0.hyps" by (simp add: poll_loop_exhausted)
next
  case (Suc n)
  then have lt: "attempts < max_attempts" by simp
  from assms lt obtain s td where pending:
    "poll_outcome env attempts = Poll_response 200 s td" "s \<noteq> ''completed''" "s \<noteq> ''error''"
    by blast
  have n: "n = max_attempts - Suc attempts" using Suc.hyps(2) by simp
  have r: "max_attempts - attempts = Suc (max_attempts - Suc attempts)" using lt by simp
  show ?case
    unfolding poll_loop_pending [OF lt pending] r
    using Suc.hyps(1) [OF n] by simp
qed

lemma poll_loop_polls_bounded:
  "length (filter ((=) (Poll tid)) (events (snd (poll_loop env tid js attempts w)))) \<le>
     length (filter ((=) (Poll tid)) (events w)) + (max_attempts - attempts)"
proof (induction "max_attempts - attempts" arbitrary: attempts w)
  case 0
  then have "\<not> attempts < max_attempts" by simp
  then show ?case by (simp add: poll_loop_exhausted)
next
  case (Suc n)
  then have lt: "attempts < max_attempts" by simp
  show ?case
  proof (cases rule: poll_turn_cases [of env attempts])
    case raises
    then show ?thesis using lt by (simp add: poll_loop_raises)
  next
    case (http_error c s td')
    then show ?thesis using lt by (simp add: poll_loop_http_error)
  next
    case (completed td')
    then show ?thesis using lt by (simp add: poll_loop_completed)
  next
    case (remote_error td')
    then show ?thesis using lt by (simp add: poll_loop_remote_error)
  next
    case (pending s td')
    have n: "n = max_attempts - Suc attempts" using Suc.hyps(2) by simp
    define w' where "w' = emit (Sleep 5)
            (set_progress js (min (synth_progress s (poll_elapsed env attempts)) 90)
               (synth_message s) (emit (Poll tid) w))"
    have c: "length (filter ((=) (Poll tid)) (events w')) =
               Suc (length (filter ((=) (Poll tid)) (events w)))"
      by (simp add: w'_def)
    have "length (filter ((=) (Poll tid)) (events (snd (poll_loop env tid js (Suc attempts) w')))) \<le>
            length (filter ((=) (Poll tid)) (events w')) + (max_attempts - Suc attempts)"
      by (rule Suc.hyps(1) [OF n])
    then have "length (filter ((=) (Poll tid)) (events (snd (poll_loop env tid js (Suc attempts) w')))) \<le>
            length (filter ((=) (Poll tid)) (events w)) + (max_attempts - attempts)"
      using c lt by linarith
    then show ?thesis
      unfolding poll_loop_pending [OF lt pending] w'_def .
  qed
qed

section \<open>What the orchestrator returns, and the job's final status\<close>

lemma transcribe_audio_api_completed_poll:
  assumes "fst (transcribe_audio_api env url js w) = Some td"
  shows "\<exists>i<max_attempts. poll_outcome env i = Poll_response 200 ''completed'' td"
proof (cases "submit_outcome env")
  case Submit_raises
  then show ?thesis using assms by (simp add: transcribe_audio_api_def Let_def)
next
  case (Submit_response c tid)
  then show ?thesis using assms
    by (cases "c = 200") (auto simp: transcribe_audio_api_def Let_def dest: poll_loop_completed_poll)
qed

lemma transcribe_audio_api_first_completed_poll:
  assumes "fst (transcribe_audio_api env url js w) = Some td"
  shows "\<exists>i<max_attempts. poll_outcome env i = Poll_response 200 ''completed'' td \<and>
           (\<forall>j<i. \<exists>s td'. poll_outcome env j = Poll_response 200 s td' \<and>
                      s \<noteq> ''completed'' \<and> s \<noteq> ''error'')"
proof (cases "submit_outcome env")
  case Submit_raises
  then show ?thesis using assms by (simp add: transcribe_audio_api_def Let_def)
next
  case (Submit_response c tid)
  show ?thesis
  proof (cases "c = 200")
    case False
    then show ?thesis using assms Submit_response
      by (simp add: transcribe_audio_api_def Let_def)
  next
    case True
    then have "fst (poll_loop env tid js 0
                 (emit (Submit url) (set_progress js 55 Iniciando_transcricao w))) = Some td"
      using assms Submit_response by (simp add: transcribe_audio_api_def Let_def)
    from poll_loop_first_completed_poll [OF this] show ?thesis by auto
  qed
qed

lemma after_conversion_success:
  assumes "fst (after_conversion env ip pf js w) = Success rf lc n"
  shows "\<exists>i<max_attempts. \<exists>td. poll_outcome env i = Poll_response 200 ''completed'' td \<and>
           result_speakers_count td = Some n \<and> lc = t_language_code td"
  using assms
  by (auto simp: after_conversion_def Let_def split_def split: option.splits if_splits
      dest!: transcribe_audio_api_completed_poll)

lemma transcribe_audio_success:
  assumes "fst (transcribe_audio env ip js w) = Success rf lc n"
  shows "\<exists>i<max_attempts. \<exists>td. poll_outcome env i = Poll_response 200 ''completed'' td \<and>
           result_speakers_count td = Some n \<and> lc = t_language_code td"
  using assms
  by (auto simp: transcribe_audio_def Let_def split_def split: if_splits
      dest!: after_conversion_success)

lemma transcribe_audio_keeps_status:
  "map_option j_status (jobs_status (snd (transcribe_audio env ip js w)) k) =
     map_option j_status (jobs_status w k)"
  by (rule transcribe_audio_invariant
      [where I = "\<lambda>w'. map_option j_status (jobs_status w' k) = map_option j_status (jobs_status w k)"])
    (simp_all add: option.map_comp comp_def)

lemma process_transcription_final_status:
  assumes "jobs_status w k = Some job"
  shows "map_option j_status (jobs_status (process_transcription env k w) k) =
     Some (case fst (transcribe_audio env (j_filepath job) (Some k)
                      (set_progress (Some k) 10 Convertendo_arquivo w)) of
             Success rf lc n \<Rightarrow> Completed | Failure e \<Rightarrow> Error)"
proof -
  let ?r = "transcribe_audio env (j_filepath job) (Some k) (set_progress (Some k) 10 Convertendo_arquivo w)"
  have present: "map_option j_status (jobs_status (snd ?r) k) = Some (j_status job)"
    using assms by (simp add: transcribe_audio_keeps_status)
  then obtain j where j: "jobs_status (snd ?r) k = Some j" by auto
  show ?thesis
    using assms j
    by (cases "fst ?r") (simp_all add: process_transcription_def Let_def split_def)
qed

section \<open>The bound on polling\<close>

text \<open>
  Without a poll that is answered with HTTP 200 and the status \<open>completed\<close>, whatever
  else the polls return (another status, an HTTP error, an exception), the job ends with
  the status \<open>error\<close>.
\<close>

lemma job_fails_without_a_completed_poll:
  assumes "\<forall>i<max_attempts. \<forall>td. poll_outcome env i \<noteq> Poll_response 200 ''completed'' td"
    and "jobs_status w job_id = Some job"
  shows "map_option j_status (jobs_status (process_transcription env job_id w) job_id) = Some Error"
proof -
  let ?r = "fst (transcribe_audio env (j_filepath job) (Some job_id)
                      (set_progress (Some job_id) 10 Convertendo_arquivo w))"
  have "\<exists>e. ?r = Failure e"
  proof (cases ?r)
    case (Failure e)
    then show ?thesis by blast
  next
    case (Success rf lc n)
    from transcribe_audio_success [OF this] assms(1) show ?thesis by blast
  qed
  then show ?thesis
    using process_transcription_final_status [OF assms(2), of env] by auto
qed

text \<open>
  Claim C5. The loop polls at most 60 times, whatever the provider answers. When each of
  the 60 polls is answered with a status other than \<open>completed\<close> and \<open>error\<close>, the
  loop makes exactly 60 polls, sleeps 5 after each, logs the timeout and returns nothing;
  the job then ends with the status \<open>error\<close>, not \<open>completed\<close>.
\<close>

theorem polling_gives_up_after_sixty_attempts:
  assumes "\<forall>i<max_attempts. \<exists>s td. poll_outcome env i = Poll_response 200 s td \<and>
             s \<noteq> ''completed'' \<and> s \<noteq> ''error''"
    and "jobs_status w job_id = Some job"
  shows "fst (poll_loop env tid js 0 w0) = None \<and>
         events (snd (poll_loop env tid js 0 w0)) =
           events w0 @ concat (replicate 60 [Poll tid, Sleep 5]) @ [Log_error Timeout] \<and>
         length (filter ((=) (Poll tid)) (events (snd (poll_loop env' tid js 0 w0)))) \<le>
           length (filter ((=) (Poll tid)) (events w0)) + 60 \<and>
         map_option j_status (jobs_status (process_transcription env job_id w) job_id) =
           Some Error"
proof -
  have none: "\<forall>i<max_attempts. \<forall>td. poll_outcome env i \<noteq> Poll_response 200 ''completed'' td"
    using assms(1) by fastforce
  have a: "fst (poll_loop env tid js 0 w0) = None \<and>
         events (snd (poll_loop env tid js 0 w0)) =
           events w0 @ concat (replicate 60 [Poll tid, Sleep 5]) @ [Log_error Timeout]"
    using poll_loop_times_out [OF assms(1), of tid js 0 w0] by (simp add: max_attempts_def)
  have b: "length (filter ((=) (Poll tid)) (events (snd (poll_loop env' tid js 0 w0)))) \<le>
           length (filter ((=) (Poll tid)) (events w0)) + 60"
    using poll_loop_polls_bounded [of tid env' js 0 w0] by (simp add: max_attempts_def)
  show ?thesis
    using a b job_fails_without_a_completed_poll [OF none assms(2)] by simp
qed

theorem polling_gives_up_after_sixty_attempts_witness:
  "fst (poll_loop env_never_done ''t1'' (Some ''job1'') 0 world0) = None \<and>
   events (snd (poll_loop env_never_done ''t1'' (Some ''job1'') 0 world0)) =
     events world0 @ concat (replicate 60 [Poll ''t1'', Sleep 5]) @ [Log_error Timeout] \<and>
   map_option j_status (jobs_status (process_transcription env_never_done ''job1'' world0) ''job1'') =
     Some Error"
proof -
  have a: "\<forall>i<max_attempts. \<exists>s td. poll_outcome env_never_done i = Poll_response 200 s td \<and>
             s \<noteq> ''completed'' \<and> s \<noteq> ''error''"
    by (simp add: env_never_done_def env_ok_def)
  have b: "jobs_status world0 ''job1'' = Some job_uploaded"
    by (simp add: world0_def)
  show ?thesis
    using polling_gives_up_after_sixty_attempts [OF a b, of "''t1''" "Some ''job1''" world0]
    by blast
qed

section \<open>Progress never goes down while the clock and the status advance\<close>

lemma up_to_emit [simp]: "up_to b (emit e w) = up_to b w"
  by (simp add: up_to_def)

lemma up_to_files [simp]: "up_to b (w\<lparr>files := f\<rparr>) = up_to b w"
  by (simp add: up_to_def)

lemma up_to_update_job [simp]: "up_to b (update_job k f w) = up_to b w"
  by (simp add: up_to_def)

lemma up_to_mono: "up_to b w \<Longrightarrow> b \<le> c \<Longrightarrow> up_to c w"
  by (auto simp: up_to_def)

lemma up_to_set_progress: "up_to b w \<Longrightarrow> b \<le> p \<Longrightarrow> up_to p (set_progress js p m w)"
  by (auto simp: up_to_def sorted_append)

lemma py_int_nonneg: "0 \<le> q \<Longrightarrow> 0 \<le> py_int q"
  by (simp add: py_int_def)

lemma py_int_mono: "0 \<le> q \<Longrightarrow> q \<le> r \<Longrightarrow> py_int q \<le> py_int r"
  by (simp add: py_int_def floor_mono)

lemma py_int_upper: "0 \<le> q \<Longrightarrow> q \<le> of_int n \<Longrightarrow> py_int q \<le> n"
  by (simp add: py_int_def floor_le_iff)

text \<open>The value the conversion loop writes for the clock reading \<open>t\<close>.\<close>

lemma conversion_value_bounds:
  assumes "0 \<le> t"
  shows "10 \<le> 10 + py_int (of_int (min (py_int (t * 10)) 90) * (3 / 10))"
    and "10 + py_int (of_int (min (py_int (t * 10)) 90) * (3 / 10)) \<le> 37"
proof -
  let ?p = "min (py_int (t * 10)) 90"
  have p: "0 \<le> ?p" "?p \<le> 90" using assms by (simp_all add: py_int_nonneg)
  have q: "(0::rat) \<le> of_int ?p * (3 / 10)" using p(1) by simp
  have "(of_int ?p :: rat) \<le> 90" using p(2) by (metis of_int_le_iff of_int_numeral)
  then have r: "(of_int ?p :: rat) * (3 / 10) \<le> of_int 27" by simp
  show "10 \<le> 10 + py_int (of_int ?p * (3 / 10))" using py_int_nonneg [OF q] by simp
  show "10 + py_int (of_int ?p * (3 / 10)) \<le> 37" using py_int_upper [OF q r] by simp
qed

lemma conversion_value_mono:
  assumes "0 \<le> t" "t \<le> t'"
  shows "10 + py_int (of_int (min (py_int (t * 10)) 90) * (3 / 10)) \<le>
         10 + py_int (of_int (min (py_int (t' * 10)) 90) * (3 / 10))"
proof -
  have a: "py_int (t * 10) \<le> py_int (t' * 10)" using assms by (intro py_int_mono) auto
  have b: "0 \<le> py_int (t * 10)" using assms by (intro py_int_nonneg) auto
  have c: "min (py_int (t * 10)) 90 \<le> min (py_int (t' * 10)) 90" using a by auto
  have d: "0 \<le> min (py_int (t * 10)) 90" using b by simp
  have "py_int (of_int (min (py_int (t * 10)) 90) * (3 / 10)) \<le>
        py_int (of_int (min (py_int (t' * 10)) 90) * (3 / 10))"
    using c d by (intro py_int_mono) auto
  then show ?thesis by simp
qed

lemma on_progress_up_to:
  assumes "up_to b w" "b \<le> 10 + py_int (of_int p * (3 / 10))"
  shows "up_to (10 + py_int (of_int p * (3 / 10))) (on_progress js p w)"
proof (cases "js = None")
  case True
  then show ?thesis using up_to_mono [OF assms] by (simp add: on_progress_unfold)
next
  case False
  then show ?thesis using up_to_set_progress [OF assms] by (auto simp: on_progress_unfold)
qed

lemma while_running_up_to:
  assumes "sorted ts" "\<forall>t\<in>set ts. 0 \<le> t" "up_to b w" "b \<le> 37"
    and "\<forall>t\<in>set ts. b \<le> 10 + py_int (of_int (min (py_int (t * 10)) 90) * (3 / 10))"
  shows "up_to 37 (while_running js ts w)"
  using assms
proof (induction ts arbitrary: b w)
  case Nil
  then show ?case using up_to_mono by simp
next
  case (Cons t ts)
  let ?v = "\<lambda>t. 10 + py_int (of_int (min (py_int (t * 10)) 90) * (3 / 10))"
  have t: "0 \<le> t" using Cons.prems(2) by simp
  have 1: "up_to (?v t) (on_progress js (min (py_int (t * 10)) 90) w)"
    using Cons.prems(3,5) by (intro on_progress_up_to) auto
  have 2: "up_to (?v t) (emit (Sleep (1 / 10)) (on_progress js (min (py_int (t * 10)) 90) w))"
    using 1 by simp
  have 3: "\<forall>t'\<in>set ts. ?v t \<le> ?v t'"
    using Cons.prems(1) t by (auto intro!: conversion_value_mono [simplified])
  have "up_to 37 (while_running js ts (emit (Sleep (1 / 10)) (on_progress js (min (py_int (t * 10)) 90) w)))"
    using Cons.prems(1,2) conversion_value_bounds(2) [OF t] 3
    by (intro Cons.IH [OF _ _ 2]) auto
  then show ?case by (simp add: Let_def)
qed

lemma convert_to_mp3_up_to:
  assumes "sorted (running_at env)" "\<forall>t\<in>set (running_at env). 0 \<le> t" "up_to 10 w"
  shows "up_to 40 (snd (convert_to_mp3 env ip js w))"
proof (cases "popen_raises env")
  case True
  then show ?thesis using up_to_mono [OF assms(3), of 40] by (simp add: convert_to_mp3_def)
next
  case False
  define w1 where "w1 = while_running js (running_at env)
      (emit (Ffmpeg (path_str ip) (path_str (with_suffix ip ''.mp3''))) w)"
  define w2 where "w2 = (case ffmpeg_wrote env of None \<Rightarrow> w1
     | Some data \<Rightarrow> w1\<lparr>files := (files w1)(path_str (with_suffix ip ''.mp3'') \<mapsto> data)\<rparr>)"
  have "up_to 37 w1"
    unfolding w1_def
    using assms(1,2) conversion_value_bounds(1)
    by (intro while_running_up_to [where b = 10]) (auto simp: assms(3))
  then have w2: "up_to 37 w2" by (cases "ffmpeg_wrote env") (simp_all add: w2_def)
  have eq: "convert_to_mp3 env ip js w =
     (if returncode env = 0 then (Some (path_str (with_suffix ip ''.mp3'')), on_progress js 100 w2)
      else (None, emit (Log_error Erro_na_conversao) w2))"
    unfolding w2_def w1_def using False by (simp add: convert_to_mp3_def Let_def)
  have v: "10 + py_int (of_int 100 * (3 / 10)) = 40" by (simp add: py_int_def)
  have "up_to 40 (on_progress js 100 w2)"
    using on_progress_up_to [OF w2, of 100 js] by (simp only: v)
  moreover have "up_to 40 (emit (Log_error Erro_na_conversao) w2)"
    using up_to_mono [OF w2, of 40] by simp
  ultimately show ?thesis unfolding eq by simp
qed

lemma upload_file_up_to:
  assumes "up_to b w" "b \<le> 50"
  shows "up_to 50 (snd (upload_file env fp js w))"
proof -
  have a: "up_to 50 w" by (rule up_to_mono [OF assms])
  have b: "up_to 50 (set_progress js 50 Upload_concluido (emit (Upload fp d) w))" for d
    using assms by (intro up_to_set_progress [where b = b]) auto
  show ?thesis
    using a b
    by (simp add: upload_file_def Let_def split: option.splits upload_outcome.splits)
qed

lemma synth_progress_lower:
  assumes "0 \<le> t"
  shows "55 \<le> min (synth_progress s t) 90"
proof -
  have "0 \<le> py_int (t * 2)" "0 \<le> py_int (t * 3)" using assms by (simp_all add: py_int_nonneg)
  then show ?thesis by (simp add: synth_progress_def Let_def)
qed

lemma synth_progress_advances:
  assumes "status_band s \<le> status_band s'" "0 \<le> t" "t \<le> t'"
  shows "min (synth_progress s t) 90 \<le> min (synth_progress s' t') 90"
proof -
  have a: "py_int (t * 2) \<le> py_int (t' * 2)" using assms(2,3) by (intro py_int_mono) auto
  have b: "py_int (t * 3) \<le> py_int (t' * 3)" using assms(2,3) by (intro py_int_mono) auto
  have c: "0 \<le> py_int (t' * 3)" "0 \<le> py_int (t * 2)" "0 \<le> py_int (t * 3)"
    using assms(2,3) by (simp_all add: py_int_nonneg)
  show ?thesis
    using assms(1) a b c
    by (simp add: synth_progress_def status_band_def Let_def split: if_splits)
qed

lemma poll_loop_up_to:
  assumes steady: "\<forall>j<max_attempts. 0 \<le> poll_elapsed env j \<and>
        (\<forall>i\<le>j. poll_elapsed env i \<le> poll_elapsed env j \<and>
                status_advances (poll_outcome env i) (poll_outcome env j))"
    and "up_to b w" "b \<le> 90"
    and "\<forall>j s td. attempts \<le> j \<and> j < max_attempts \<and> poll_outcome env j = Poll_response 200 s td
           \<longrightarrow> b \<le> min (synth_progress s (poll_elapsed env j)) 90"
  shows "up_to 95 (snd (poll_loop env tid js attempts w))"
  using assms(2-)
proof (induction "max_attempts - attempts" arbitrary: attempts w b)
  case 0
  then have "\<not> attempts < max_attempts" by simp
  then show ?case using up_to_mono [OF "0.prems"(1), of 95] "0.prems"(2)
    by (simp add: poll_loop_exhausted)
next
  case (Suc n)
  then have lt: "attempts < max_attempts" by simp
  have w95: "up_to 95 w" using up_to_mono [OF Suc.prems(1), of 95] Suc.prems(2) by simp
  let ?v = "\<lambda>s. min (synth_progress s (poll_elapsed env attempts)) 90"
  have polled: "up_to (?v s) (set_progress js (?v s) (synth_message s) (emit (Poll tid) w))"
    if "poll_outcome env attempts = Poll_response 200 s td" for s td
    using Suc.prems(1,3) lt that by (intro up_to_set_progress [where b = b]) auto
  show ?case
  proof (cases rule: poll_turn_cases [of env attempts])
    case raises
    then show ?thesis using lt w95 by (simp add: poll_loop_raises)
  next
    case (http_error c s td)
    then show ?thesis using lt w95 by (simp add: poll_loop_http_error)
  next
    case (completed td)
    have "up_to 95 (set_progress js 95 Transcricao_concluida
            (set_progress js (?v ''completed'') (synth_message ''completed'') (emit (Poll tid) w)))"
      by (rule up_to_set_progress [OF polled [OF completed]]) simp
    then show ?thesis using lt completed by (simp add: poll_loop_completed)
  next
    case (remote_error td)
    have "up_to 95 (set_progress js (?v ''error'') (synth_message ''error'') (emit (Poll tid) w))"
      using polled [OF remote_error] by (rule up_to_mono) simp
    then show ?thesis using lt remote_error by (simp add: poll_loop_remote_error)
  next
    case (pending s td)
    have n: "n = max_attempts - Suc attempts" using Suc.hyps(2) by simp
    have here: "0 \<le> poll_elapsed env attempts" using steady lt by blast
    have later: "?v s \<le> min (synth_progress s' (poll_elapsed env j)) 90"
      if "Suc attempts \<le> j \<and> j < max_attempts \<and> poll_outcome env j = Poll_response 200 s' td'"
      for j s' td'
    proof -
      from that have j: "j < max_attempts" "attempts \<le> j"
        and out: "poll_outcome env j = Poll_response 200 s' td'" by auto
      from steady j have "poll_elapsed env attempts \<le> poll_elapsed env j"
        and "status_advances (poll_outcome env attempts) (poll_outcome env j)" by blast+
      then show ?thesis
        using here pending(1) out
        by (intro synth_progress_advances) (simp_all add: status_advances_def)
    qed
    have "up_to 95 (snd (poll_loop env tid js (Suc attempts)
         (emit (Sleep 5) (set_progress js (?v s) (synth_message s) (emit (Poll tid) w)))))"
      using polled [OF pending(1)] later
      by (intro Suc.hyps(1) [OF n, where b = "?v s"]) auto
    then show ?thesis using lt pending by (simp add: poll_loop_pending)
  qed
qed

lemma transcribe_audio_api_up_to:
  assumes steady: "\<forall>j<max_attempts. 0 \<le> poll_elapsed env j \<and>
        (\<forall>i\<le>j. poll_elapsed env i \<le> poll_elapsed env j \<and>
                status_advances (poll_outcome env i) (poll_outcome env j))"
    and "up_to 50 w"
  shows "up_to 95 (snd (transcribe_audio_api env url js w))"
proof -
  have s: "up_to 55 (emit (Submit url) (set_progress js 55 Iniciando_transcricao w))"
    using up_to_set_progress [OF assms(2), of 55] by simp
  have s95: "up_to 95 (emit (Submit url) (set_progress js 55 Iniciando_transcricao w))"
    by (rule up_to_mono [OF s]) simp
  show ?thesis
  proof (cases "submit_outcome env")
    case Submit_raises
    then show ?thesis using s95 by (simp add: transcribe_audio_api_def Let_def)
  next
    case (Submit_response c tid)
    have low: "\<forall>j s td. 0 \<le> j \<and> j < max_attempts \<and> poll_outcome env j = Poll_response 200 s td
           \<longrightarrow> 55 \<le> min (synth_progress s (poll_elapsed env j)) 90"
      using steady synth_progress_lower by blast
    have "up_to 95 (snd (poll_loop env tid js 0
            (emit (Submit url) (set_progress js 55 Iniciando_transcricao w))))"
      by (rule poll_loop_up_to [OF steady s _ low]) simp
    then show ?thesis using Submit_response s95 by (simp add: transcribe_audio_api_def Let_def)
  qed
qed

lemma after_conversion_up_to:
  assumes steady: "\<forall>j<max_attempts. 0 \<le> poll_elapsed env j \<and>
        (\<forall>i\<le>j. poll_elapsed env i \<le> poll_elapsed env j \<and>
                status_advances (poll_outcome env i) (poll_outcome env j))"
    and "up_to b w" "b \<le> 40"
  shows "up_to 100 (snd (after_conversion env ip pf js w))"
proof -
  define up where "up = upload_file env pf js (set_progress js 40 Enviando_arquivo w)"
  define api where "api url =
      transcribe_audio_api env url js (set_progress js 50 Processando_transcricao (snd up))" for url
  define saved where "saved url td =
      save_transcript env td (ip\<lparr>parent := []\<rparr>) (set_progress js 95 Salvando_resultado (snd (api url)))"
    for url td
  have 1: "up_to 40 (set_progress js 40 Enviando_arquivo w)"
    by (rule up_to_set_progress [OF assms(2,3)])
  have 2: "up_to 50 (snd up)" unfolding up_def by (rule upload_file_up_to [OF 1]) simp
  have 3: "up_to 95 (snd (api url))" for url
    unfolding api_def
    by (rule transcribe_audio_api_up_to [OF steady]) (rule up_to_set_progress [OF 2], simp)
  have 4: "up_to 95 (snd (saved url td))" for url td
    unfolding saved_def
    by (rule save_transcript_invariant [where I = "up_to 95"])
      (simp_all add: up_to_set_progress [OF 3])
  have 5: "up_to 95 (unlink env fp (snd (saved url td)))" for url td fp
    by (rule unlink_invariant [where I = "up_to 95"]) (simp_all add: 4)
  have f1: "up_to 100 (snd up)" by (rule up_to_mono [OF 2]) simp
  have f2: "up_to 100 (snd (api url))" for url by (rule up_to_mono [OF 3]) simp
  have f3: "up_to 100 (snd (saved url td))" for url td by (rule up_to_mono [OF 4]) simp
  have f4: "up_to 100 (set_progress js 100 Transcricao_concluida_com_sucesso (snd (saved url td)))"
    for url td by (rule up_to_set_progress [OF 4]) simp
  have f5: "up_to 100 (set_progress js 100 Transcricao_concluida_com_sucesso
              (unlink env fp (snd (saved url td))))"
    for url td fp by (rule up_to_set_progress [OF 5]) simp
  have f6: "up_to 100 (emit e (unlink env fp (snd (saved url td))))" for url td fp e
    unfolding up_to_emit by (rule up_to_mono [OF 5]) simp
  have f7: "up_to 100 (emit e (snd (saved url td)))" for url td e
    unfolding up_to_emit by (rule f3)
  show ?thesis
    using f1 f2 f3 f4 f5 f6 f7 unfolding saved_def api_def up_def
    by (simp add: after_conversion_def Let_def split_def split: option.splits)
qed

lemma transcribe_audio_up_to:
  assumes "steady env" "up_to 10 w"
  shows "up_to 100 (snd (transcribe_audio env ip js w))"
proof -
  have polls: "\<forall>j<max_attempts. 0 \<le> poll_elapsed env j \<and>
        (\<forall>i\<le>j. poll_elapsed env i \<le> poll_elapsed env j \<and>
                status_advances (poll_outcome env i) (poll_outcome env j))"
    using assms(1) by (simp add: steady_def)
  have conv: "up_to 40 (snd (convert_to_mp3 env ip js w))"
    using assms by (intro convert_to_mp3_up_to) (simp_all add: steady_def)
  have a: "up_to 100 (snd (convert_to_mp3 env ip js w))" by (rule up_to_mono [OF conv]) simp
  have b: "up_to 100 (snd (after_conversion env ip pf js (snd (convert_to_mp3 env ip js w))))" for pf
    by (rule after_conversion_up_to [OF polls conv]) simp
  have c: "up_to 100 (snd (after_conversion env ip pf js w))" for pf
    by (rule after_conversion_up_to [OF polls assms(2)]) simp
  show ?thesis
    using a b c by (simp add: transcribe_audio_def Let_def split_def)
qed

lemma process_transcription_up_to:
  assumes "steady env" "up_to b w" "b \<le> 10"
  shows "up_to 100 (process_transcription env k w)"
proof (cases "jobs_status w k")
  case None
  then show ?thesis using up_to_mono [OF assms(2), of 100] assms(3)
    by (simp add: process_transcription_def)
next
  case (Some job)
  define r where "r = transcribe_audio env (j_filepath job) (Some k)
      (set_progress (Some k) 10 Convertendo_arquivo w)"
  have r: "up_to 100 (snd r)"
    unfolding r_def
    by (rule transcribe_audio_up_to [OF assms(1)]) (rule up_to_set_progress [OF assms(2,3)])
  have fin: "up_to 100 (set_progress (Some k) 100 Transcricao_concluida
                 (update_job k f (snd r)))" for f
    by (rule up_to_set_progress [where b = 100]) (simp_all add: r)
  show ?thesis
    using Some r fin unfolding r_def
    by (cases "fst (transcribe_audio env (j_filepath job) (Some k)
            (set_progress (Some k) 10 Convertendo_arquivo w))")
      (simp_all add: process_transcription_def Let_def split_def)
qed

text \<open>
  Claim C2, as amended. In every run in which the clock never goes backwards and the
  status reported by the provider never returns to an earlier stage (\<open>queued\<close>, then
  \<open>processing\<close>, then any other status), the values written to the job's progress field,
  from the start request through conversion, upload, submission and every poll to the
  end of the run, never decrease.
\<close>

theorem progress_never_decreases_in_a_steady_run:
  assumes "steady env" and "progress_writes w = []"
  shows "sorted (progress_writes (snd (run env job_id w)))"
proof -
  have w: "up_to 0 w" using assms(2) by (simp add: up_to_def)
  have "up_to 100 (snd (run env job_id w))"
  proof (cases "jobs_status w job_id")
    case None
    then show ?thesis using up_to_mono [OF w, of 100]
      by (simp add: run_def start_transcription_def)
  next
    case (Some job)
    show ?thesis
    proof (cases "j_status job = Uploaded")
      case False
      then show ?thesis using Some up_to_mono [OF w, of 100]
        by (simp add: run_def start_transcription_def)
    next
      case True
      define w' where "w' = set_progress (Some job_id) 0 Iniciando_transcricao
          (w\<lparr>jobs_status := (jobs_status w)(job_id \<mapsto> job\<lparr>j_status := Processing\<rparr>)\<rparr>)"
      have "up_to 0 (w\<lparr>jobs_status := (jobs_status w)(job_id \<mapsto> job\<lparr>j_status := Processing\<rparr>)\<rparr>)"
        using w by (simp add: up_to_def)
      then have "up_to 0 w'" unfolding w'_def by (rule up_to_set_progress) simp
      then have "up_to 100 (process_transcription env job_id w')"
        by (rule process_transcription_up_to [OF assms(1)]) simp
      then show ?thesis
        using Some True unfolding w'_def
        by (simp add: run_def start_transcription_def Let_def)
    qed
  qed
  then show ?thesis by (simp add: up_to_def)
qed

theorem progress_never_decreases_in_a_steady_run_witness:
  "steady env_ok \<and> progress_writes world0 = [] \<and>
   sorted (progress_writes (snd (run env_ok ''job1'' world0)))"
proof -
  have a: "steady env_ok"
    by (auto simp: steady_def env_ok_def status_advances_def status_band_def)
  have b: "progress_writes world0 = []" by (simp add: world0_def)
  show ?thesis
    using a b progress_never_decreases_in_a_steady_run [OF a b, of "''job1''"] by simp
qed

section \<open>Following one run through the pipeline\<close>

lemma on_progress_files [simp]: "files (on_progress js p w) = files w"
  by (simp add: on_progress_unfold)

lemma convert_to_mp3_leaves_output:
  assumes "\<not> popen_raises env" "ffmpeg_wrote env = Some d"
  shows "files (snd (convert_to_mp3 env ip js w)) (path_str (with_suffix ip ''.mp3'')) = Some d"
  using assms by (simp add: convert_to_mp3_def Let_def)

lemma convert_to_mp3_reports_failure:
  assumes "returncode env \<noteq> 0"
  shows "fst (convert_to_mp3 env ip js w) = None"
  using assms by (simp add: convert_to_mp3_def Let_def)

lemma transcribe_audio_after_conversion:
  assumes "needs_conversion ip"
    and "files (snd (convert_to_mp3 env ip js w)) (path_str (with_suffix ip ''.mp3'')) = Some d"
  shows "transcribe_audio env ip js w =
           after_conversion env ip (path_str (with_suffix ip ''.mp3'')) js
             (snd (convert_to_mp3 env ip js w))"
  using assms by (simp add: transcribe_audio_def Let_def split_def)

lemma after_conversion_upload_rejected:
  assumes "files w pf = Some d" "upload_outcome env = Upload_response c url" "c \<noteq> 200"
  shows "after_conversion env ip pf js w =
           (Failure Falha_no_upload,
            emit (Log_error Erro_no_upload) (emit (Upload pf d) (set_progress js 40 Enviando_arquivo w)))"
  using assms by (simp add: after_conversion_def upload_file_def Let_def)

text \<open>
  When the upload and the submission succeed, the rest of \<open>after_conversion\<close> acts on
  the state the polling loop leaves, and its result is decided by what the loop returns.
\<close>

lemma after_conversion_from_polling:
  assumes "files w pf = Some d" "upload_outcome env = Upload_response 200 url" "url \<noteq> []"
    and "submit_outcome env = Submit_response 200 tid"
    and "I (snd (poll_loop env tid js 0
            (emit (Submit url) (set_progress js 55 Iniciando_transcricao
              (set_progress js 50 Processando_transcricao
                (set_progress js 50 Upload_concluido
                  (emit (Upload pf d) (set_progress js 40 Enviando_arquivo w))))))))"
    and e: "\<And>e w. I w \<Longrightarrow> I (emit e w)"
    and p: "\<And>p m w. I w \<Longrightarrow> I (set_progress js p m w)"
    and f: "\<And>f w. I w \<Longrightarrow> I (w\<lparr>files := f\<rparr>)"
  shows "I (snd (after_conversion env ip pf js w))"
proof -
  note save = save_transcript_invariant [where I = I, OF _ e f]
  note unl = unlink_invariant [where I = I, OF _ e f]
  show ?thesis
    using assms(1-4)
    apply (simp add: after_conversion_def upload_file_def transcribe_audio_api_def Let_def
        split_def split: option.splits)
    apply (intro conjI impI allI e p save unl assms(5); assumption)
    done
qed

lemma after_conversion_result:
  assumes "files w pf = Some d" "upload_outcome env = Upload_response 200 url" "url \<noteq> []"
    and "submit_outcome env = Submit_response 200 tid"
    and "\<And>w'. fst (poll_loop env tid js 0 w') = Some td"
    and "\<not> write_raises env"
    and "report_content td = Some content" "result_speakers_count td = Some n"
  shows "fst (after_conversion env ip pf js w) =
           Success (output_dir @ ''/'' @ timestamp env @ ''_'' @ stem ip @ ''_transcript.txt'')
             (t_language_code td) n"
  using assms
  by (simp add: after_conversion_def upload_file_def transcribe_audio_api_def save_transcript_def
      Let_def split_def)

lemma process_transcription_from_service:
  assumes "jobs_status w k = Some job"
    and "I (snd (transcribe_audio env (j_filepath job) (Some k)
                  (set_progress (Some k) 10 Convertendo_arquivo w)))"
    and p: "\<And>p m w. I w \<Longrightarrow> I (set_progress (Some k) p m w)"
    and u: "\<And>f w. I w \<Longrightarrow> I (update_job k f w)"
  shows "I (process_transcription env k w)"
  using assms(1)
  by (cases "fst (transcribe_audio env (j_filepath job) (Some k)
                  (set_progress (Some k) 10 Convertendo_arquivo w))")
    (simp_all add: process_transcription_def Let_def split_def u p assms(2))

lemma run_accepted:
  assumes "jobs_status w k = Some job" "j_status job = Uploaded"
  shows "run env k w =
           (Transcricao_iniciada,
            process_transcription env k
              (set_progress (Some k) 0 Iniciando_transcricao
                 (w\<lparr>jobs_status := (jobs_status w)(k \<mapsto> job\<lparr>j_status := Processing\<rparr>)\<rparr>)))"
  using assms by (simp add: run_def start_transcription_def Let_def)

lemma run_final_status:
  assumes "jobs_status w k = Some job" "j_status job = Uploaded"
  shows "map_option j_status (jobs_status (snd (run env k w)) k) =
     Some (case fst (transcribe_audio env (j_filepath job) (Some k)
                      (set_progress (Some k) 10 Convertendo_arquivo
                        (set_progress (Some k) 0 Iniciando_transcricao
                          (w\<lparr>jobs_status := (jobs_status w)(k \<mapsto> job\<lparr>j_status := Processing\<rparr>)\<rparr>)))) of
             Success rf lc n \<Rightarrow> Completed | Failure e \<Rightarrow> Error)"
proof -
  let ?w = "set_progress (Some k) 0 Iniciando_transcricao
              (w\<lparr>jobs_status := (jobs_status w)(k \<mapsto> job\<lparr>j_status := Processing\<rparr>)\<rparr>)"
  have j: "jobs_status ?w k =
      Some (job\<lparr>j_status := Processing, j_progress := 0, j_message := Iniciando_transcricao\<rparr>)"
    by simp
  show ?thesis
    using process_transcription_final_status [OF j, of env]
    by (simp add: run_accepted [OF assms])
qed

lemma run_from_service:
  assumes "jobs_status w k = Some job" "j_status job = Uploaded"
    and "I (snd (transcribe_audio env (j_filepath job) (Some k)
                      (set_progress (Some k) 10 Convertendo_arquivo
                        (set_progress (Some k) 0 Iniciando_transcricao
                          (w\<lparr>jobs_status := (jobs_status w)(k \<mapsto> job\<lparr>j_status := Processing\<rparr>)\<rparr>)))))"
    and p: "\<And>p m w. I w \<Longrightarrow> I (set_progress (Some k) p m w)"
    and u: "\<And>f w. I w \<Longrightarrow> I (update_job k f w)"
  shows "I (snd (run env k w))"
proof -
  let ?w = "set_progress (Some k) 0 Iniciando_transcricao
              (w\<lparr>jobs_status := (jobs_status w)(k \<mapsto> job\<lparr>j_status := Processing\<rparr>)\<rparr>)"
  have j: "jobs_status ?w k =
      Some (job\<lparr>j_status := Processing, j_progress := 0, j_message := Iniciando_transcricao\<rparr>)"
    by simp
  have "I (process_transcription env k ?w)"
    by (rule process_transcription_from_service [OF j _ p u]) (simp_all add: assms(3))
  then show ?thesis by (simp add: run_accepted [OF assms(1,2)])
qed

lemma process_transcription_failure_message:
  assumes "jobs_status w k = Some job"
    and "fst (transcribe_audio env (j_filepath job) (Some k)
                      (set_progress (Some k) 10 Convertendo_arquivo w)) = Failure e"
  shows "map_option j_message (jobs_status (process_transcription env k w) k) = Some (Erro e)"
proof -
  let ?r = "transcribe_audio env (j_filepath job) (Some k) (set_progress (Some k) 10 Convertendo_arquivo w)"
  have "map_option j_status (jobs_status (snd ?r) k) = Some (j_status job)"
    using assms(1) by (simp add: transcribe_audio_keeps_status)
  then obtain j where j: "jobs_status (snd ?r) k = Some j" by auto
  show ?thesis
    using assms j by (simp add: process_transcription_def Let_def split_def)
qed

lemma run_failure_message:
  assumes "jobs_status w k = Some job" "j_status job = Uploaded"
    and "\<And>w'. fst (transcribe_audio env (j_filepath job) (Some k) w') = Failure e"
  shows "map_option j_message (jobs_status (snd (run env k w)) k) = Some (Erro e)"
proof -
  let ?w = "set_progress (Some k) 0 Iniciando_transcricao
              (w\<lparr>jobs_status := (jobs_status w)(k \<mapsto> job\<lparr>j_status := Processing\<rparr>)\<rparr>)"
  have j: "jobs_status ?w k =
      Some (job\<lparr>j_status := Processing, j_progress := 0, j_message := Iniciando_transcricao\<rparr>)"
    by simp
  show ?thesis
    using process_transcription_failure_message [OF j, of env e] assms(3)
    by (simp add: run_accepted [OF assms(1,2)])
qed

section \<open>A failed upload leaves the converted file behind\<close>

lemma upload_rejected_after_conversion:
  assumes "needs_conversion ip" "\<not> popen_raises env" "ffmpeg_wrote env = Some d"
    and "upload_outcome env = Upload_response c url" "c \<noteq> 200"
  shows "fst (transcribe_audio env ip js w) = Failure Falha_no_upload"
    and "files (snd (transcribe_audio env ip js w)) (path_str (with_suffix ip ''.mp3'')) = Some d"
proof -
  note out = convert_to_mp3_leaves_output [OF assms(2,3), of ip js w]
  note eq = transcribe_audio_after_conversion [OF assms(1) out]
  note rej = after_conversion_upload_rejected [OF out assms(4,5), of ip js]
  show "fst (transcribe_audio env ip js w) = Failure Falha_no_upload"
    unfolding eq rej by simp
  show "files (snd (transcribe_audio env ip js w)) (path_str (with_suffix ip ''.mp3'')) = Some d"
    unfolding eq rej using out by simp
qed

lemma first_steps:
  "jobs_status world0 ''job1'' = Some job_uploaded" "j_status job_uploaded = Uploaded"
  "j_filepath job_uploaded = ogg_path" "needs_conversion ogg_path"
  "path_str (with_suffix ogg_path ''.mp3'') = ''uploads/a.mp3''"
  by (simp_all add: world0_def job_uploaded_def ogg_path_def needs_conversion_def lower_def
      lower_char_def with_suffix_def path_str_def)

text \<open>
  Claim C3, evaluated on one run. An \<open>.ogg\<close> file is converted, then the upload is
  answered with HTTP 500. The orchestrator stops at the first error and the job ends with
  the status \<open>error\<close>, but the converted file \<open>uploads/a.mp3\<close> is still there when the
  run is over: only the path that ends in success removes it.
\<close>

theorem converted_file_survives_failed_upload:
  "fst (run env_upload_fails ''job1'' world0) = Transcricao_iniciada \<and>
   map_option j_status (jobs_status (snd (run env_upload_fails ''job1'' world0)) ''job1'') =
     Some Error \<and>
   map_option j_message (jobs_status (snd (run env_upload_fails ''job1'' world0)) ''job1'') =
     Some (Erro Falha_no_upload) \<and>
   files (snd (run env_upload_fails ''job1'' world0)) ''uploads/a.mp3'' = Some ''mp3-audio''"
proof -
  have env: "\<not> popen_raises env_upload_fails" "ffmpeg_wrote env_upload_fails = Some ''mp3-audio''"
    "upload_outcome env_upload_fails = Upload_response 500 []" "(500::int) \<noteq> 200"
    by (simp_all add: env_upload_fails_def env_ok_def)
  note bug = upload_rejected_after_conversion [OF first_steps(4) env, unfolded first_steps(5)]
  have a: "fst (run env_upload_fails ''job1'' world0) = Transcricao_iniciada"
    by (simp add: run_accepted [OF first_steps(1,2)])
  have b: "map_option j_status (jobs_status (snd (run env_upload_fails ''job1'' world0)) ''job1'') =
     Some Error"
    by (simp add: run_final_status [OF first_steps(1,2)] first_steps(3) bug(1))
  have c: "files (snd (run env_upload_fails ''job1'' world0)) ''uploads/a.mp3'' = Some ''mp3-audio''"
    by (rule run_from_service [OF first_steps(1,2)]) (simp_all add: first_steps(3) bug(2))
  have m: "map_option j_message (jobs_status (snd (run env_upload_fails ''job1'' world0)) ''job1'') =
     Some (Erro Falha_no_upload)"
    by (rule run_failure_message [OF first_steps(1,2)]) (simp add: first_steps(3) bug(1))
  show ?thesis using a b m c by simp
qed

section \<open>The output of a failed encoding is uploaded\<close>

lemma third_poll_completes:
  assumes "poll_outcome env 0 = Poll_response 200 s0 td0" "s0 \<noteq> ''completed''" "s0 \<noteq> ''error''"
    and "poll_outcome env (Suc 0) = Poll_response 200 s1 td1" "s1 \<noteq> ''completed''" "s1 \<noteq> ''error''"
    and "poll_outcome env (Suc (Suc 0)) = Poll_response 200 ''completed'' td"
  shows "fst (poll_loop env tid js 0 w) = Some td"
    and "progress_writes (snd (poll_loop env tid (Some k) 0 w)) =
           progress_writes w @
           [min (synth_progress s0 (poll_elapsed env 0)) 90,
            min (synth_progress s1 (poll_elapsed env (Suc 0))) 90,
            min (synth_progress ''completed'' (poll_elapsed env (Suc (Suc 0)))) 90, 95]"
proof -
  have lt: "0 < max_attempts" "Suc 0 < max_attempts" "Suc (Suc 0) < max_attempts"
    by (simp_all add: max_attempts_def)
  show "fst (poll_loop env tid js 0 w) = Some td"
    unfolding poll_loop_pending [OF lt(1) assms(1-3)] poll_loop_pending [OF lt(2) assms(4-6)]
      poll_loop_completed [OF lt(3) assms(7)]
    by simp
  show "progress_writes (snd (poll_loop env tid (Some k) 0 w)) =
           progress_writes w @
           [min (synth_progress s0 (poll_elapsed env 0)) 90,
            min (synth_progress s1 (poll_elapsed env (Suc 0))) 90,
            min (synth_progress ''completed'' (poll_elapsed env (Suc (Suc 0)))) 90, 95]"
    unfolding poll_loop_pending [OF lt(1) assms(1-3)] poll_loop_pending [OF lt(2) assms(4-6)]
      poll_loop_completed [OF lt(3) assms(7)]
    by simp
qed

lemma converted_file_is_uploaded:
  assumes "needs_conversion ip" "\<not> popen_raises env" "ffmpeg_wrote env = Some d"
    and "upload_outcome env = Upload_response 200 url" "url \<noteq> []"
    and "submit_outcome env = Submit_response 200 tid"
  shows "Upload (path_str (with_suffix ip ''.mp3'')) d \<in> set (events (snd (transcribe_audio env ip js w)))"
proof -
  note out = convert_to_mp3_leaves_output [OF assms(2,3), of ip js w]
  note eq = transcribe_audio_after_conversion [OF assms(1) out]
  let ?I = "\<lambda>w'. Upload (path_str (with_suffix ip ''.mp3'')) d \<in> set (events w')"
  have "?I (snd (after_conversion env ip (path_str (with_suffix ip ''.mp3'')) js
             (snd (convert_to_mp3 env ip js w))))"
  proof (rule after_conversion_from_polling [where I = ?I, OF out assms(4-6)])
    show "?I (snd (poll_loop env tid js 0
            (emit (Submit url) (set_progress js 55 Iniciando_transcricao
              (set_progress js 50 Processando_transcricao
                (set_progress js 50 Upload_concluido
                  (emit (Upload (path_str (with_suffix ip ''.mp3'')) d)
                    (set_progress js 40 Enviando_arquivo (snd (convert_to_mp3 env ip js w))))))))))"
      by (rule poll_loop_invariant [where I = ?I]) simp_all
  qed simp_all
  then show ?thesis unfolding eq .
qed

lemma converted_file_result:
  assumes "needs_conversion ip" "\<not> popen_raises env" "ffmpeg_wrote env = Some d"
    and "upload_outcome env = Upload_response 200 url" "url \<noteq> []"
    and "submit_outcome env = Submit_response 200 tid"
    and "\<And>w'. fst (poll_loop env tid js 0 w') = Some td"
    and "\<not> write_raises env"
    and "report_content td = Some content" "result_speakers_count td = Some n"
  shows "fst (transcribe_audio env ip js w) =
           Success (output_dir @ ''/'' @ timestamp env @ ''_'' @ stem ip @ ''_transcript.txt'')
             (t_language_code td) n"
proof -
  note out = convert_to_mp3_leaves_output [OF assms(2,3), of ip js w]
  note eq = transcribe_audio_after_conversion [OF assms(1) out]
  show ?thesis
    unfolding eq by (rule after_conversion_result [OF out assms(4-10)])
qed

text \<open>
  Claim C4, evaluated on one run. The encoder exits with 1 and leaves a partial output
  file. The generator reports the failure by returning nothing, but the loop that
  consumes it drops that value and the orchestrator only checks that the output file
  exists: the partial file is uploaded and the job ends with the status \<open>completed\<close>.
\<close>

theorem partial_output_of_failed_encoder_is_uploaded:
  "returncode env_encoder_fails = 1 \<and>
   fst (convert_to_mp3 env_encoder_fails ogg_path (Some ''job1'') world0) = None \<and>
   Upload ''uploads/a.mp3'' ''partial'' \<in> set (events (snd (run env_encoder_fails ''job1'' world0))) \<and>
   map_option j_status (jobs_status (snd (run env_encoder_fails ''job1'' world0)) ''job1'') =
     Some Completed"
proof -
  have env: "\<not> popen_raises env_encoder_fails" "ffmpeg_wrote env_encoder_fails = Some ''partial''"
    "upload_outcome env_encoder_fails = Upload_response 200 ''https://cdn/u1''"
    "''https://cdn/u1'' \<noteq> []"
    "submit_outcome env_encoder_fails = Submit_response 200 ''t1''"
    by (simp_all add: env_encoder_fails_def env_ok_def)
  have rc: "returncode env_encoder_fails = 1" "returncode env_encoder_fails \<noteq> 0"
    by (simp_all add: env_encoder_fails_def)
  have polls: "fst (poll_loop env_encoder_fails ''t1'' (Some ''job1'') 0 w') = Some payload_two_speakers"
    for w'
    by (rule third_poll_completes(1) [where ?s0.0 = "''queued''" and ?s1.0 = "''processing''"])
      (simp_all add: env_encoder_fails_def env_ok_def)
  have wr: "\<not> write_raises env_encoder_fails" by (simp add: env_encoder_fails_def env_ok_def)
  note up = converted_file_is_uploaded [OF first_steps(4) env, unfolded first_steps(5)]
  note res = converted_file_result [OF first_steps(4) env polls wr report_two_speakers
      count_two_speakers]
  have a: "fst (convert_to_mp3 env_encoder_fails ogg_path (Some ''job1'') world0) = None"
    by (rule convert_to_mp3_reports_failure [OF rc(2)])
  have b: "Upload ''uploads/a.mp3'' ''partial'' \<in> set (events (snd (run env_encoder_fails ''job1'' world0)))"
    by (rule run_from_service [OF first_steps(1,2)]) (simp_all add: first_steps(3) up)
  have c: "map_option j_status (jobs_status (snd (run env_encoder_fails ''job1'' world0)) ''job1'') =
     Some Completed"
    by (simp add: run_final_status [OF first_steps(1,2)] first_steps(3) res)
  show ?thesis using rc(1) a b c by simp
qed

section \<open>A status that goes back lowers the progress\<close>

text \<open>
  A run in which the provider reports \<open>processing\<close> at the first poll and \<open>queued\<close> at
  the second: the loop writes 90 and then 65.
\<close>

theorem progress_decreases_when_status_goes_back_counterexample:
  "\<not> sorted (progress_writes (snd (run env_status_goes_back ''job1'' world0)))"
proof -
  let ?env = env_status_goes_back
  let ?I = "\<lambda>w'. \<exists>xs ys. progress_writes w' = xs @ [90, 65] @ ys"
  have env: "\<not> popen_raises ?env" "ffmpeg_wrote ?env = Some ''mp3-audio''"
    "upload_outcome ?env = Upload_response 200 ''https://cdn/u1''"
    "''https://cdn/u1'' \<noteq> []"
    "submit_outcome ?env = Submit_response 200 ''t1''"
    by (simp_all add: env_status_goes_back_def env_ok_def)
  have v: "min (synth_progress ''processing'' (poll_elapsed ?env 0)) 90 = 90"
    "min (synth_progress ''queued'' (poll_elapsed ?env (Suc 0))) 90 = 65"
    by (simp_all add: env_status_goes_back_def synth_progress_def py_int_def Let_def)
  have polls: "progress_writes (snd (poll_loop ?env ''t1'' (Some ''job1'') 0 w')) =
      progress_writes w' @ [90, 65, min (synth_progress ''completed'' (poll_elapsed ?env (Suc (Suc 0)))) 90, 95]"
    for w'
  proof -
    have "progress_writes (snd (poll_loop ?env ''t1'' (Some ''job1'') 0 w')) =
           progress_writes w' @
           [min (synth_progress ''processing'' (poll_elapsed ?env 0)) 90,
            min (synth_progress ''queued'' (poll_elapsed ?env (Suc 0))) 90,
            min (synth_progress ''completed'' (poll_elapsed ?env (Suc (Suc 0)))) 90, 95]"
      by (rule third_poll_completes(2)) (simp_all add: env_status_goes_back_def)
    then show ?thesis by (simp only: v)
  qed
  have polled: "?I (snd (poll_loop ?env ''t1'' (Some ''job1'') 0 w'))" for w'
    unfolding polls by (intro exI [of _ "progress_writes w'"] exI) simp
  have closed: "?I (emit e w')" "?I (w'\<lparr>files := f\<rparr>)" "?I (update_job k g w')" if "?I w'" for e f w' k g
    using that by simp_all
  have closed_p: "?I (set_progress js p m w')" if "?I w'" for js p m w'
  proof -
    from that obtain xs ys where "progress_writes w' = xs @ [90, 65] @ ys" by blast
    then have "progress_writes (set_progress js p m w') =
        xs @ [90, 65] @ (if js = None then ys else ys @ [p])" by simp
    then show ?thesis by blast
  qed
  note out = convert_to_mp3_leaves_output [OF env(1,2)]
  have service: "?I (snd (transcribe_audio ?env ogg_path (Some ''job1'') w'))" for w'
    unfolding transcribe_audio_after_conversion [OF first_steps(4) out]
    by (rule after_conversion_from_polling [where I = ?I, OF out env(3-5) polled])
      (rule closed closed_p, assumption)+
  have svc: "?I (snd (transcribe_audio ?env (j_filepath job_uploaded) (Some ''job1'') w'))" for w'
    unfolding first_steps(3) by (rule service)
  have "?I (snd (run ?env ''job1'' world0))"
    by (rule run_from_service [where I = ?I, OF first_steps(1,2) svc])
      (rule closed closed_p, assumption)+
  then obtain xs ys where
    "progress_writes (snd (run ?env ''job1'' world0)) = xs @ [90, 65] @ ys" by blast
  then show ?thesis by (simp add: sorted_append)
qed

section \<open>The speaker count\<close>

lemma result_speakers_count_well_typed:
  assumes "well_typed td"
  shows "result_speakers_count td = Some (card (label_of ` set (or_default (t_utterances td) [])))"
proof -
  let ?us = "or_default (t_utterances td) []"
  have uu: "usable (t_utterances td)" and wt: "\<forall>u\<in>set ?us. well_typed_utterance u"
    using assms by (simp_all add: well_typed_def)
  have ty: "typed (t_utterances td) [] = Some ?us"
    using uu by (cases "t_utterances td") (simp_all add: usable_def typed_def or_default_def)
  have tr: "truthy (t_utterances td) \<longleftrightarrow> ?us \<noteq> []"
    using uu by (cases "t_utterances td") (simp_all add: usable_def truthy_def or_default_def)
  have "\<forall>u\<in>set ?us. u_speaker u \<noteq> Ill_typed"
    using wt by (simp add: well_typed_utterance_def)
  then have "count_speakers ?us = Some (card (label_of ` set ?us))"
    by (rule count_speakers_hashable)
  then show ?thesis
    by (cases "?us = []") (simp_all add: result_speakers_count_def Let_def tr ty)
qed

text \<open>The report is not the converted file, the one file that the cleanup removes.\<close>

lemma report_is_not_the_converted_file:
  "output_dir @ ''/'' @ ts @ ''_'' @ st @ ''_transcript.txt'' \<noteq> path_str (with_suffix ip ''.mp3'')"
proof
  assume "output_dir @ ''/'' @ ts @ ''_'' @ st @ ''_transcript.txt'' =
          path_str (with_suffix ip ''.mp3'')"
  then have "last (output_dir @ ''/'' @ ts @ ''_'' @ st @ ''_transcript.txt'') =
             last (path_str (with_suffix ip ''.mp3''))"
    by (rule arg_cong)
  then show False by (simp add: path_str_def with_suffix_def)
qed

lemma save_transcript_file:
  assumes "fst (save_transcript env td original w) = Some rf"
  shows "rf = output_dir @ ''/'' @ timestamp env @ ''_'' @ stem original @ ''_transcript.txt''"
    and "files (snd (save_transcript env td original w)) rf = report_content td"
    and "report_content td \<noteq> None"
  using assms
  by (auto simp: save_transcript_def Let_def split: option.splits if_splits)

lemma unlink_other_file:
  "p \<noteq> rf \<Longrightarrow> files (unlink env p w) rf = files w rf"
  by (simp add: unlink_def)

text \<open>
  A successful run of the steps after the conversion: the report on disk and the two
  values of the result come from the payload of the first completed poll.
\<close>

lemma after_conversion_report:
  assumes "after_conversion env ip pf js w = (Success rf lc n, w')"
  shows "\<exists>i<max_attempts. \<exists>td.
           poll_outcome env i = Poll_response 200 ''completed'' td \<and>
           (\<forall>j<i. \<exists>s td'. poll_outcome env j = Poll_response 200 s td' \<and>
                      s \<noteq> ''completed'' \<and> s \<noteq> ''error'') \<and>
           lc = t_language_code td \<and> result_speakers_count td = Some n \<and>
           report_content td \<noteq> None \<and> files w' rf = report_content td"
proof -
  define w1 where "w1 = snd (upload_file env pf js (set_progress js 40 Enviando_arquivo w))"
  define api where "api = transcribe_audio_api env (the (fst (upload_file env pf js
                      (set_progress js 40 Enviando_arquivo w)))) js
                      (set_progress js 50 Processando_transcricao w1)"
  obtain td where td: "fst api = Some td"
    using assms
    by (cases "fst api")
       (auto simp: after_conversion_def Let_def split_def w1_def api_def
          split: option.splits if_splits)
  define saved where "saved = save_transcript env td (ip\<lparr>parent := []\<rparr>)
                      (set_progress js 95 Salvando_resultado (snd api))"
  have rf: "fst saved = Some rf" and lc: "lc = t_language_code td"
    and n: "result_speakers_count td = Some n"
    and w': "w' = set_progress js 100 Transcricao_concluida_com_sucesso
                   (if needs_conversion ip
                    then unlink env (path_str (with_suffix ip ''.mp3'')) (snd saved)
                    else snd saved)"
    using assms td
    by (auto simp: after_conversion_def Let_def split_def w1_def api_def saved_def
          split: option.splits if_splits)
  note written = save_transcript_file [OF rf [unfolded saved_def], folded saved_def]
  have "rf \<noteq> path_str (with_suffix ip ''.mp3'')"
    unfolding written(1) by (rule report_is_not_the_converted_file)
  then have "files w' rf = files (snd saved) rf"
    unfolding w' by (simp add: unlink_other_file)
  then have f: "files w' rf = report_content td" using written(2) by simp
  from transcribe_audio_api_first_completed_poll [OF td [unfolded api_def]]
  obtain i where "i < max_attempts" "poll_outcome env i = Poll_response 200 ''completed'' td"
    "\<forall>j<i. \<exists>s td'. poll_outcome env j = Poll_response 200 s td' \<and>
                      s \<noteq> ''completed'' \<and> s \<noteq> ''error''"
    by blast
  then show ?thesis using lc n f written(3) by blast
qed

lemma transcribe_audio_report:
  assumes "transcribe_audio env ip js w = (Success rf lc n, w')"
  shows "\<exists>i<max_attempts. \<exists>td.
           poll_outcome env i = Poll_response 200 ''completed'' td \<and>
           (\<forall>j<i. \<exists>s td'. poll_outcome env j = Poll_response 200 s td' \<and>
                      s \<noteq> ''completed'' \<and> s \<noteq> ''error'') \<and>
           lc = t_language_code td \<and> result_speakers_count td = Some n \<and>
           report_content td \<noteq> None \<and> files w' rf = report_content td"
proof (cases "needs_conversion ip")
  case False
  then have "after_conversion env ip (path_str ip) js w = (Success rf lc n, w')"
    using assms by (simp add: transcribe_audio_def)
  then show ?thesis by (rule after_conversion_report)
next
  case True
  then have "after_conversion env ip (path_str (with_suffix ip ''.mp3'')) js
               (snd (convert_to_mp3 env ip js w)) = (Success rf lc n, w')"
    using assms by (simp add: transcribe_audio_def Let_def split_def split: if_splits)
  then show ?thesis by (rule after_conversion_report)
qed

text \<open>
  Claim C7, as amended. When the orchestrator succeeds, the payload it worked on is that
  of the first completed poll; the speaker count of its result is the number of distinct
  speaker labels among the utterances of that payload (a missing label counting as
  \<open>A\<close>), which is 0 for an empty list. The report it leaves on disk is the report of the
  same payload: for a list that is not empty it carries, after the lines for language
  and confidence, the line \<open>Total de falantes\<close> with the same number; for an empty list
  it carries no such line, the title of the segment section following at once.
\<close>

theorem speaker_count_is_number_of_distinct_labels:
  assumes "transcribe_audio env ip js w = (Success rf lc n, w')"
  shows "\<exists>i<max_attempts. \<exists>td.
           poll_outcome env i = Poll_response 200 ''completed'' td \<and>
           (\<forall>j<i. \<exists>s td'. poll_outcome env j = Poll_response 200 s td' \<and>
                      s \<noteq> ''completed'' \<and> s \<noteq> ''error'') \<and>
           n = card (label_of ` set (or_default (t_utterances td) [])) \<and>
           (or_default (t_utterances td) [] = [] \<longrightarrow> n = 0) \<and>
           files w' rf = report_content td \<and>
           report_content td =
             Some (report_header @ language_line td @
                   (case t_confidence td of Present c \<Rightarrow> confidence_label @ fmt_2f c @ nl
                    | _ \<Rightarrow> []) @
                   (if or_default (t_utterances td) [] = [] then []
                    else ''Total de falantes: '' @ str_nat n @ nl) @
                   nl @ ''=== SEGMENTOS COM FALANTES ==='' @ nl @ nl @
                   concat (map expected_segment
                             (utterances_sorted (or_default (t_utterances td) []))))"
proof -
  from transcribe_audio_report [OF assms]
  obtain i td where i: "i < max_attempts"
      "poll_outcome env i = Poll_response 200 ''completed'' td"
      "\<forall>j<i. \<exists>s td'. poll_outcome env j = Poll_response 200 s td' \<and>
                 s \<noteq> ''completed'' \<and> s \<noteq> ''error''"
    and n: "result_speakers_count td = Some n"
    and r: "report_content td \<noteq> None" and f: "files w' rf = report_content td"
    by blast
  from r obtain content where "report_content td = Some content" by auto
  then have wt: "well_typed td" by (rule report_content_Some_well_typed)
  have card: "n = card (label_of ` set (or_default (t_utterances td) []))"
    using n result_speakers_count_well_typed [OF wt] by simp
  have zero: "or_default (t_utterances td) [] = [] \<longrightarrow> n = 0"
    using card by simp
  have layout: "report_content td =
             Some (report_header @ language_line td @
                   (case t_confidence td of Present c \<Rightarrow> confidence_label @ fmt_2f c @ nl
                    | _ \<Rightarrow> []) @
                   (if or_default (t_utterances td) [] = [] then []
                    else ''Total de falantes: '' @ str_nat n @ nl) @
                   nl @ ''=== SEGMENTOS COM FALANTES ==='' @ nl @ nl @
                   concat (map expected_segment
                             (utterances_sorted (or_default (t_utterances td) []))))"
    unfolding card by (rule report_content_well_typed [OF wt])
  show ?thesis
    using i card zero f layout by blast
qed

text \<open>
  The run in which the third poll is answered \<open>completed\<close>, with a payload of four
  utterances by two speakers: the result counts 2 speakers and the report on disk
  carries the line \<open>Total de falantes: 2\<close>.
\<close>

theorem speaker_count_is_number_of_distinct_labels_witness:
  "fst (transcribe_audio env_ok ogg_path (Some ''job1'') world0) =
     Success ''results/20250903_215613_a_transcript.txt'' (Some ''pt'') 2 \<and>
   files (snd (transcribe_audio env_ok ogg_path (Some ''job1'') world0))
     ''results/20250903_215613_a_transcript.txt'' =
     Some (report_header @ ''Idioma detectado: pt'' @ nl @ confidence_label @ ''0.93'' @ nl @
           ''Total de falantes: 2'' @ nl @ nl @ ''=== SEGMENTOS COM FALANTES ==='' @ nl @ nl @
           ''[00:00:00 - 00:00:00] Speaker A: '' @ nl @ nl @
           ''[00:00:10 - 00:00:05] Speaker B: x'' @ nl @ nl @
           ''[00:16:40 - 00:31:40] Speaker A: ok'' @ nl @ nl @
           ''[01:23:20 - 01:38:20] Speaker B: ok'' @ nl @ nl)"
proof -
  have env: "\<not> popen_raises env_ok" "ffmpeg_wrote env_ok = Some ''mp3-audio''"
    "upload_outcome env_ok = Upload_response 200 ''https://cdn/u1''"
    "''https://cdn/u1'' \<noteq> []"
    "submit_outcome env_ok = Submit_response 200 ''t1''"
    by (simp_all add: env_ok_def)
  have polls: "fst (poll_loop env_ok ''t1'' (Some ''job1'') 0 w') = Some payload_two_speakers" for w'
    by (rule third_poll_completes(1) [where ?s0.0 = "''queued''" and ?s1.0 = "''processing''"])
      (simp_all add: env_ok_def)
  have wr: "\<not> write_raises env_ok" by (simp add: env_ok_def)
  have p: "output_dir @ ''/'' @ timestamp env_ok @ ''_'' @ stem ogg_path @ ''_transcript.txt'' =
      ''results/20250903_215613_a_transcript.txt''"
    by (simp add: output_dir_def env_ok_def ogg_path_def)
  have l: "t_language_code payload_two_speakers = Some ''pt''"
    by (simp add: payload_two_speakers_def)
  have a: "fst (transcribe_audio env_ok ogg_path (Some ''job1'') world0) =
     Success ''results/20250903_215613_a_transcript.txt'' (Some ''pt'') 2"
    using converted_file_result [OF first_steps(4) env polls wr report_two_speakers
        count_two_speakers, of world0]
    by (simp only: p l)
  then have run: "transcribe_audio env_ok ogg_path (Some ''job1'') world0 =
     (Success ''results/20250903_215613_a_transcript.txt'' (Some ''pt'') 2,
      snd (transcribe_audio env_ok ogg_path (Some ''job1'') world0))"
    by (simp add: prod_eq_iff)
  from speaker_count_is_number_of_distinct_labels [OF run]
  obtain i td where c: "poll_outcome env_ok i = Poll_response 200 ''completed'' td"
    and f: "files (snd (transcribe_audio env_ok ogg_path (Some ''job1'') world0))
              ''results/20250903_215613_a_transcript.txt'' = report_content td"
    by blast
  from c have "td = payload_two_speakers"
    by (simp add: env_ok_def split: if_splits)
  then have b: "files (snd (transcribe_audio env_ok ogg_path (Some ''job1'') world0))
     ''results/20250903_215613_a_transcript.txt'' =
     Some (report_header @ ''Idioma detectado: pt'' @ nl @ confidence_label @ ''0.93'' @ nl @
           ''Total de falantes: 2'' @ nl @ nl @ ''=== SEGMENTOS COM FALANTES ==='' @ nl @ nl @
           ''[00:00:00 - 00:00:00] Speaker A: '' @ nl @ nl @
           ''[00:00:10 - 00:00:05] Speaker B: x'' @ nl @ nl @
           ''[00:16:40 - 00:31:40] Speaker A: ok'' @ nl @ nl @
           ''[01:23:20 - 01:38:20] Speaker B: ok'' @ nl @ nl)"
    using f by (simp only: report_two_speakers)
  show ?thesis using a b by (simp only: simp_thms)
qed

text \<open>
  For a payload without utterances the result counts 0 speakers, and the report has no
  speaker-count line, not a line with the count 0.
\<close>

theorem empty_transcript_has_no_speaker_line_counterexample:
  "report_content payload_no_utterances =
     Some (report_header @ nl @ ''=== SEGMENTOS COM FALANTES ==='' @ nl @ nl) \<and>
   speakers_line (t_utterances payload_no_utterances) = Some [] \<and>
   result_speakers_count payload_no_utterances = Some 0"
  by code_simp

end
